theory Spec2Isabelle
  imports Complex_Main "HOL-Library.Word"
begin

unbundle bit_operations_syntax

section \<open>Python values shared by the two acquisition programs\<close>

text \<open>
  A byte string (\<open>bytes\<close>, \<open>bytearray\<close>) is a list of 8-bit words. Python integers are
  unbounded and are modelled by \<open>int\<close>. Python floats are modelled by \<open>real\<close>: the
  arithmetic of the decoders is taken exactly, without IEEE rounding.
\<close>

type_synonym byte = "8 word"

text \<open>The slice \<open>xs[i:j]\<close> for non-negative bounds; it is shorter when \<open>xs\<close> is.\<close>

definition py_slice :: "'a list \<Rightarrow> nat \<Rightarrow> nat \<Rightarrow> 'a list" where
  "py_slice xs i j = take (j - i) (drop i xs)"

text \<open>\<open>int.from_bytes(data, byteorder='little', signed=False)\<close>\<close>

fun from_bytes_little :: "byte list \<Rightarrow> int" where
  "from_bytes_little [] = 0"
| "from_bytes_little (b # bs) = uint b + 256 * from_bytes_little bs"

text \<open>\<open>int.from_bytes(data, byteorder='little', signed=True)\<close>: two's complement.\<close>

definition from_bytes_little_signed :: "byte list \<Rightarrow> int" where
  "from_bytes_little_signed data =
     (let u = from_bytes_little data; n = length data
      in if n > 0 \<and> u \<ge> 2 ^ (8 * n - 1) then u - 2 ^ (8 * n) else u)"

text \<open>\<open>int.from_bytes(data, "big")\<close>\<close>

definition from_bytes_big :: "byte list \<Rightarrow> int" where
  "from_bytes_big data = foldl (\<lambda>acc b. acc * 256 + uint b) 0 data"

text \<open>
  Exceptions carry the class that the handlers test with \<open>isinstance\<close> and the text
  that \<open>str(e)\<close> gives, which the handlers search for substrings.
\<close>

datatype exc_type =
    AssertionError
  | BleakDeviceNotFoundError
  | TimeoutError
  | SerialException
  | KeyError
  | ZeroDivisionError
  | OtherException

datatype exc = Exc exc_type string

fun exc_class :: "exc \<Rightarrow> exc_type" where
  "exc_class (Exc t m) = t"

fun exc_str :: "exc \<Rightarrow> string" where
  "exc_str (Exc t m) = m"

text \<open>A failed \<open>assert\<close> without a message raises \<open>AssertionError()\<close>, whose text is empty.\<close>

definition assertion_failed :: exc where
  "assertion_failed = Exc AssertionError []"

text \<open>Sequencing of computations that may raise: \<open>Inl\<close> is the raised exception.\<close>

definition bindE :: "exc + 'a \<Rightarrow> ('a \<Rightarrow> exc + 'b) \<Rightarrow> exc + 'b" where
  "bindE m f = (case m of Inl e \<Rightarrow> Inl e | Inr x \<Rightarrow> f x)"

section \<open>blitz\_client.py: the frame decoder\<close>

record BLESensorStatus =
  is_htu21d_online :: bool
  is_bmp280_online :: bool
  is_gy302_online :: bool
  is_sht4x_online :: bool
  is_end_of_battery :: bool

text \<open>\<open>BLESensorStatus.parse\<close>: both assertions of the method are branches.\<close>

definition BLESensorStatus_parse :: "int \<Rightarrow> exc + BLESensorStatus" where
  "BLESensorStatus_parse data =
     (if \<not> (data \<ge> 0 \<and> data \<le> 255) then Inl assertion_failed
      else
        let s = \<lparr> is_htu21d_online = (data AND 0x80) \<noteq> 0,
                  is_bmp280_online = (data AND 0x40) \<noteq> 0,
                  is_gy302_online = (data AND 0x20) \<noteq> 0,
                  is_sht4x_online = (data AND 0x10) \<noteq> 0,
                  is_end_of_battery = (data AND 0x01) \<noteq> 0 \<rparr>
        in if \<not> (\<not> (is_htu21d_online s \<and> is_sht4x_online s)) then Inl assertion_failed
           else Inr s)"

text \<open>The field decoders local to \<open>parse_data\<close>, each with its length assertion.\<close>

definition supply_voltage :: "byte list \<Rightarrow> exc + real" where
  "supply_voltage data =
     (if length data \<noteq> 2 then Inl assertion_failed
      else Inr (real_of_int (from_bytes_little data) / 1000))"

definition htu21d_temperature :: "byte list \<Rightarrow> exc + real" where
  "htu21d_temperature data =
     (if length data \<noteq> 2 then Inl assertion_failed
      else Inr (real_of_int (from_bytes_little data) * 175.72 / 65536 - 46.85))"

definition htu21d_humidity :: "byte list \<Rightarrow> exc + real" where
  "htu21d_humidity data =
     (if length data \<noteq> 2 then Inl assertion_failed
      else
        let ans = real_of_int (from_bytes_little data) * 125 / 65536 - 6;
            ans = (if ans > 100 then 100 else ans);
            ans = (if ans < 0 then 0 else ans)
        in Inr ans)"

definition sht4x_temperature :: "byte list \<Rightarrow> exc + real" where
  "sht4x_temperature data =
     (if length data \<noteq> 2 then Inl assertion_failed
      else Inr (real_of_int (from_bytes_little data) * 175 / 65535 - 45))"

definition sht4x_humidity :: "byte list \<Rightarrow> exc + real" where
  "sht4x_humidity data =
     (if length data \<noteq> 2 then Inl assertion_failed
      else
        let ans = real_of_int (from_bytes_little data) * 125 / 65535 - 6;
            ans = (if ans > 100 then 100 else ans);
            ans = (if ans < 0 then 0 else ans)
        in Inr ans)"

definition bmp280_pressure :: "byte list \<Rightarrow> exc + real" where
  "bmp280_pressure data =
     (if length data \<noteq> 4 then Inl assertion_failed
      else Inr (real_of_int (from_bytes_little data) / 25600))"

definition bmp280_temperature :: "byte list \<Rightarrow> exc + real" where
  "bmp280_temperature data =
     (if length data \<noteq> 2 then Inl assertion_failed
      else Inr (real_of_int (from_bytes_little_signed data) / 100))"

definition gy302_light :: "byte list \<Rightarrow> exc + real" where
  "gy302_light data =
     (if length data \<noteq> 2 then Inl assertion_failed
      else Inr (real_of_int (from_bytes_little data) / 1.2))"

text \<open>The values stored in the dictionaries that the decoders return.\<close>

datatype pyval = VStatus BLESensorStatus | VFloat real | VInt int

type_synonym reading = "string \<rightharpoonup> pyval"

text \<open>
  \<open>parse_data(raw_data, mask)\<close> of blitz\_client.py. The dictionary \<open>ans\<close> is built in
  the order of the source; a key is present only if its assignment was executed. The
  parameter \<open>mask\<close> is written \<open>msk\<close>.
\<close>

definition blitz_parse_data :: "byte list \<Rightarrow> int \<Rightarrow> exc + reading" where
  "blitz_parse_data raw_data msk =
     (if length raw_data \<noteq> 17 then Inl assertion_failed
      else
        bindE (BLESensorStatus_parse (uint (raw_data ! 1) AND msk)) (\<lambda>ble_sensor_status.
        bindE (supply_voltage (py_slice raw_data 2 4)) (\<lambda>sv.
        let ans = [''status'' \<mapsto> VStatus ble_sensor_status, ''supply_voltage'' \<mapsto> VFloat sv] in
        bindE
          (if is_sht4x_online ble_sensor_status then
             bindE (sht4x_temperature (py_slice raw_data 4 6)) (\<lambda>t.
             bindE (sht4x_humidity (py_slice raw_data 6 8)) (\<lambda>h.
             Inr (ans(''temperature'' \<mapsto> VFloat t, ''humidity'' \<mapsto> VFloat h))))
           else if is_htu21d_online ble_sensor_status then
             bindE (htu21d_temperature (py_slice raw_data 4 6)) (\<lambda>t.
             bindE (htu21d_humidity (py_slice raw_data 6 8)) (\<lambda>h.
             Inr (ans(''temperature'' \<mapsto> VFloat t, ''humidity'' \<mapsto> VFloat h))))
           else Inr ans) (\<lambda>ans.
        bindE
          (if is_bmp280_online ble_sensor_status then
             bindE (bmp280_pressure (py_slice raw_data 8 12)) (\<lambda>p.
             bindE (bmp280_temperature (py_slice raw_data 12 14)) (\<lambda>t.
             Inr (ans(''pressure'' \<mapsto> VFloat p, ''temperature_aux'' \<mapsto> VFloat t))))
           else Inr ans) (\<lambda>ans.
        if is_gy302_online ble_sensor_status then
          bindE (gy302_light (py_slice raw_data 14 16)) (\<lambda>l.
          Inr (ans(''light'' \<mapsto> VFloat l)))
        else Inr ans)))))"

section \<open>blitz\_client.py: the connection supervisor\<close>

text \<open>
  \<open>blitz_access\<close> is a coroutine that talks to the BLE transport. The model takes the
  outcomes of the awaited transport calls as input and returns the actions of the
  supervisor in program order: log lines, sleeps, watchdog calls and the printed readings.
  Acquiring and releasing the \<open>asyncio.Lock\<close> cannot fail and leaves no trace here; what
  \<open>debug_print\<close> and \<open>influx_print\<close> write is kept as one action each.
\<close>

text \<open>\<open>needle in haystack\<close> on strings.\<close>

fun py_in :: "'a list \<Rightarrow> 'a list \<Rightarrow> bool" where
  "py_in needle [] = (needle = [])"
| "py_in needle (c # cs) = (take (length needle) (c # cs) = needle \<or> py_in needle cs)"

datatype log_msg =
    JobStarted
  | WillConnect
  | Scanning
  | Found
  | Connected
  | DisconnectedCallback
  | FailedReading exc
  | InvalidData "byte list"
  | DeviceNotReady
  | SuccessfullyGotData
  | NoSensorOnline
  | LowBattery
  | DisconnectedRetry
  | NotFoundRetry
  | NoAdaptersRetry
  | DeviceBusyRetry
  | FailedConnecting exc
  | TooManyTimeouts
  | WatchDogTimedOut real
  | InvalidDataRetry nat int int
  | InvalidDataNotify "byte list"
  | FailedToConnect exc

datatype effect =
    Log log_msg
  | Sleep real
  | WatchDogOn
  | WatchDogOff
  | WatchDogTouch
  | DebugPrint reading
  | InfluxPrint reading

text \<open>The command-line arguments that \<open>blitz_access\<close> reads.\<close>

record blitz_args =
  min_interval :: int
  debug :: bool

text \<open>How one pass of a loop body ends.\<close>

datatype control = Continue | Break | Raise exc

text \<open>
  What the transport does in one pass of the read loop: the value of
  \<open>client.is_connected\<close>, the outcome of \<open>client.read_gatt_char\<close>, and the seconds
  \<open>time.time() - start_time\<close> measured at line 225.
\<close>

record read_event =
  is_connected :: bool
  read_gatt_char :: "exc + byte list"
  elapsed :: real

text \<open>
  One pass of the inner \<open>while True\<close> (lines 192 to 227). The state is the pair of the
  local \<open>worked\<close> and \<open>timeout_count\<close>.
\<close>

definition read_loop_body ::
    "blitz_args \<Rightarrow> int \<Rightarrow> bool \<times> int \<Rightarrow> read_event \<Rightarrow> effect list \<times> control \<times> (bool \<times> int)" where
  "read_loop_body args msk st ev =
     (let (worked, timeout_count) = st in
      if \<not> is_connected ev then ([], Break, st)
      else
        (case read_gatt_char ev of
           Inl e \<Rightarrow>
             (if py_in ''Not connected'' (exc_str e) then ([], Break, st)
              else ([Log (FailedReading e), Sleep 3], Continue, (False, timeout_count)))
         | Inr raw_data \<Rightarrow>
             (if length raw_data \<noteq> 17 \<or> raw_data ! 0 \<noteq> 0x12 \<or> raw_data ! 16 \<noteq> 0x23 then
                (Log (InvalidData raw_data) #
                   (if raw_data = replicate 17 0 then [Log DeviceNotReady, Sleep 30] else []),
                 Continue, (False, timeout_count))
              else
                (case blitz_parse_data raw_data msk of
                   Inl e \<Rightarrow> ([], Raise e, st)
                 | Inr data \<Rightarrow>
                     (case data ''status'' of
                        Some (VStatus status) \<Rightarrow>
                          ((if \<not> worked then [Log SuccessfullyGotData] else []) @
                           (if \<not> is_sht4x_online status \<and> \<not> is_htu21d_online status \<and>
                               \<not> is_bmp280_online status \<and> \<not> is_gy302_online status
                            then [Log NoSensorOnline] else []) @
                           (if is_end_of_battery status then [Log LowBattery] else []) @
                           (if debug args then [DebugPrint data] else []) @
                           [InfluxPrint data] @
                           (let sleep_time = real_of_int (min_interval args) - elapsed ev
                            in if sleep_time > 0 then [Sleep sleep_time] else []),
                           Continue, (True, 0))
                      | _ \<Rightarrow> ([], Raise (Exc KeyError ''status''), st))))))"

text \<open>
  The inner loop over the transport's events. When the events run out the loop is still
  running, which the result \<open>Continue\<close> says.
\<close>

fun read_loop ::
    "blitz_args \<Rightarrow> int \<Rightarrow> bool \<times> int \<Rightarrow> read_event list \<Rightarrow> effect list \<times> control \<times> (bool \<times> int)" where
  "read_loop args msk st [] = ([], Continue, st)"
| "read_loop args msk st (ev # evs) =
     (case read_loop_body args msk st ev of
        (es, Continue, st') \<Rightarrow>
          (case read_loop args msk st' evs of (es', c, st'') \<Rightarrow> (es @ es', c, st''))
      | (es, c, st') \<Rightarrow> (es, c, st'))"

text \<open>The handler \<open>except Exception as e\<close> of the outer loop (lines 230 to 250).\<close>

definition on_exception :: "exc \<Rightarrow> int \<Rightarrow> effect list \<times> int" where
  "on_exception e timeout_count =
     (if exc_class e = BleakDeviceNotFoundError then
        ([WatchDogOff, Log NotFoundRetry, Sleep 60], timeout_count)
      else if py_in ''No powered Bluetooth adapters found'' (exc_str e) then
        ([WatchDogOff, Log NoAdaptersRetry, Sleep 60], timeout_count)
      else if py_in ''[org.bluez.Error.InProgress]'' (exc_str e) then
        ([WatchDogOff, Log DeviceBusyRetry, Sleep 20], timeout_count)
      else if exc_class e = TimeoutError then
        (let timeout_count = timeout_count + 1 in
         if timeout_count > 10 then
           ([WatchDogOff, Log (FailedConnecting e), Log TooManyTimeouts, Sleep 60, Sleep 3],
            timeout_count)
         else ([WatchDogOff, Log (FailedConnecting e), Sleep 3], timeout_count))
      else ([WatchDogOff, Log (FailedConnecting e), Sleep 3], timeout_count))"

text \<open>
  What the transport does in one pass of the outer loop: the outcome of
  \<open>BleakScanner.find_device_by_address\<close> (\<open>Inr False\<close> is the result \<open>None\<close>), of entering
  the client (the connect), the events of the read loop, and the outcome of leaving the
  client (the disconnect) when the \<open>async with\<close> block is left.
\<close>

record attempt =
  find_device_by_address :: "exc + bool"
  enter_client :: "exc + unit"
  reads :: "read_event list"
  exit_client :: "exc + unit"

text \<open>
  One pass of the outer \<open>while True\<close> (lines 173 to 250). The result holds the actions,
  the new \<open>timeout_count\<close>, and whether the pass ended (\<open>False\<close>: the events ran out
  inside the read loop).
\<close>

definition handled :: "effect list \<Rightarrow> exc \<Rightarrow> int \<Rightarrow> effect list \<times> int \<times> bool" where
  "handled pre e timeout_count =
     (case on_exception e timeout_count of (es, tc) \<Rightarrow> (pre @ es, tc, True))"

definition blitz_access_attempt ::
    "blitz_args \<Rightarrow> string \<Rightarrow> int \<Rightarrow> int \<Rightarrow> attempt \<Rightarrow> effect list \<times> int \<times> bool" where
  "blitz_access_attempt args address msk timeout_count a =
     (let pre = [Log WillConnect, Log Scanning, WatchDogOn] in
      (case find_device_by_address a of
         Inl e \<Rightarrow> handled pre e timeout_count
       | Inr device \<Rightarrow>
           (if \<not> device then
              handled (pre @ [WatchDogOff])
                (Exc BleakDeviceNotFoundError (''Device '' @ address @ '' not found''))
                timeout_count
            else
              (let pre = pre @ [WatchDogOff, Log Found, WatchDogOn] in
               (case enter_client a of
                  Inl e \<Rightarrow> handled pre e timeout_count
                | Inr _ \<Rightarrow>
                    (let pre = pre @ [WatchDogOff, Log Connected] in
                     (case read_loop args msk (False, timeout_count) (reads a) of
                        (es, Continue, (worked, tc)) \<Rightarrow> (pre @ es, tc, False)
                      | (es, Break, (worked, tc)) \<Rightarrow>
                          (case exit_client a of
                             Inl e \<Rightarrow> handled (pre @ es) e tc
                           | Inr _ \<Rightarrow> (pre @ es @ [Log DisconnectedRetry, Sleep 3], tc, True))
                      | (es, Raise e, (worked, tc)) \<Rightarrow>
                          (case exit_client a of
                             Inl e' \<Rightarrow> handled (pre @ es) e' tc
                           | Inr _ \<Rightarrow> handled (pre @ es) e tc))))))))"

text \<open>The outer loop over the passes that the transport's outcomes describe.\<close>

fun blitz_access_loop ::
    "blitz_args \<Rightarrow> string \<Rightarrow> int \<Rightarrow> int \<Rightarrow> attempt list \<Rightarrow> effect list \<times> int" where
  "blitz_access_loop args address msk timeout_count [] = ([], timeout_count)"
| "blitz_access_loop args address msk timeout_count (a # as) =
     (case blitz_access_attempt args address msk timeout_count a of
        (es, tc, True) \<Rightarrow>
          (case blitz_access_loop args address msk tc as of (es', tc') \<Rightarrow> (es @ es', tc'))
      | (es, tc, False) \<Rightarrow> (es, tc))"

definition blitz_access ::
    "blitz_args \<Rightarrow> string \<Rightarrow> real \<Rightarrow> int \<Rightarrow> attempt list \<Rightarrow> effect list \<times> int" where
  "blitz_access args address latency msk as =
     (case blitz_access_loop args address msk 0 as of
        (es, tc) \<Rightarrow> ([Sleep latency, Log JobStarted] @ es, tc))"

text \<open>The seconds slept, in order.\<close>

fun sleeps :: "effect list \<Rightarrow> real list" where
  "sleeps [] = []"
| "sleeps (Sleep d # es) = d # sleeps es"
| "sleeps (_ # es) = sleeps es"

text \<open>The readings handed to \<open>influx_print\<close>, in order.\<close>

fun emitted :: "effect list \<Rightarrow> reading list" where
  "emitted [] = []"
| "emitted (InfluxPrint r # es) = r # emitted es"
| "emitted (_ # es) = emitted es"

section \<open>third\_party: the watchdog\<close>

record WatchDog =
  timeout :: real
  ts :: real
  enable :: bool

text \<open>The methods take the value of \<open>time.time()\<close> that they read.\<close>

definition WatchDog_touch :: "WatchDog \<Rightarrow> real \<Rightarrow> WatchDog" where
  "WatchDog_touch self now = self\<lparr>ts := now\<rparr>"

definition WatchDog_on :: "WatchDog \<Rightarrow> real \<Rightarrow> WatchDog" where
  "WatchDog_on self now = (WatchDog_touch self now)\<lparr>enable := True\<rparr>"

definition WatchDog_off :: "WatchDog \<Rightarrow> WatchDog" where
  "WatchDog_off self = self\<lparr>enable := False\<rparr>"

text \<open>
  The loop shares the object with the other tasks, which run while the loop is suspended
  in \<open>asyncio.sleep\<close>. Each pass of the loop is given the calls that the other tasks made
  since the previous pass and the value of \<open>time.time()\<close> that line 47 reads.
\<close>

datatype wd_call = CallOn real | CallOff | CallTouch real

fun wd_apply :: "WatchDog \<Rightarrow> wd_call \<Rightarrow> WatchDog" where
  "wd_apply self (CallOn now) = WatchDog_on self now"
| "wd_apply self CallOff = WatchDog_off self"
| "wd_apply self (CallTouch now) = WatchDog_touch self now"

text \<open>
  How a run of the loop over finitely many passes ends: suspended in a sleep, waiting
  for the next pass, or with the process terminated by \<open>exit\<close>. The source has no
  \<open>break\<close> and no \<open>return\<close>, so there is no third way.
\<close>

datatype loop_end = Sleeping | Exited int

text \<open>One pass of \<open>WatchDog.loop\<close> (lines 44 to 52): the actions and whether the process exits.\<close>

definition WatchDog_loop_body :: "WatchDog \<Rightarrow> real \<Rightarrow> effect list \<times> loop_end" where
  "WatchDog_loop_body self now =
     (if \<not> enable self then ([Sleep (timeout self / 2)], Sleeping)
      else
        (let time_expire = now - ts self in
         if time_expire \<ge> timeout self then ([Log (WatchDogTimedOut time_expire)], Exited (- 1))
         else ([Sleep (timeout self - time_expire)], Sleeping)))"

fun WatchDog_loop :: "WatchDog \<Rightarrow> (wd_call list \<times> real) list \<Rightarrow> effect list \<times> loop_end" where
  "WatchDog_loop self [] = ([], Sleeping)"
| "WatchDog_loop self ((calls, now) # rest) =
     (let self = foldl wd_apply self calls in
      (case WatchDog_loop_body self now of
         (es, Sleeping) \<Rightarrow> (case WatchDog_loop self rest of (es', r) \<Rightarrow> (es @ es', r))
       | (es, Exited c) \<Rightarrow> (es, Exited c)))"

text \<open>The fatal reports among the actions.\<close>

fun reports :: "effect list \<Rightarrow> real list" where
  "reports [] = []"
| "reports (Log (WatchDogTimedOut d) # es) = d # reports es"
| "reports (_ # es) = reports es"

section \<open>electricity\_meter.py\<close>

text \<open>\<open>parse_data(raw_data)\<close> of electricity\_meter.py; slicing and \<open>int.from_bytes\<close> do not raise.\<close>

definition meter_parse_data :: "byte list \<Rightarrow> reading" where
  "meter_parse_data raw_data =
     (let voltage = real_of_int (from_bytes_big (py_slice raw_data 5 7)) / 10;
          current = real_of_int (from_bytes_big (py_slice raw_data 8 10)) / 1000;
          power = real_of_int (from_bytes_big (py_slice raw_data 11 13)) / 10;
          kwh = real_of_int (from_bytes_big (py_slice raw_data 15 17)) / 100;
          price = real_of_int (from_bytes_big (py_slice raw_data 19 20)) / 100;
          freq = real_of_int (from_bytes_big (py_slice raw_data 20 22)) / 10;
          coef = real_of_int (from_bytes_big (py_slice raw_data 22 24)) / 1000;
          temperature = from_bytes_big (py_slice raw_data 25 26);
          h = from_bytes_big (py_slice raw_data 26 28);
          m = from_bytes_big (py_slice raw_data 28 29);
          s = from_bytes_big (py_slice raw_data 29 30)
      in [''voltage'' \<mapsto> VFloat voltage,
          ''current'' \<mapsto> VFloat current,
          ''power'' \<mapsto> VFloat power,
          ''kwh'' \<mapsto> VFloat kwh,
          ''price'' \<mapsto> VFloat price,
          ''freq'' \<mapsto> VFloat freq,
          ''coef'' \<mapsto> VFloat coef,
          ''temperature'' \<mapsto> VInt temperature,
          ''h'' \<mapsto> VInt h,
          ''m'' \<mapsto> VInt m,
          ''s'' \<mapsto> VInt s])"

text \<open>
  The command-line arguments of the meter program; its \<open>args.debug\<close> is the field
  \<open>meter_debug\<close>.
\<close>

record meter_args =
  interval :: int
  meter_debug :: bool

text \<open>
  The variables \<open>print_count\<close> and \<open>worked\<close>, which \<open>run_spp\<close> and \<open>notify_cb\<close> both
  keep, and \<open>reconnect_count\<close> of \<open>run_spp\<close>.
\<close>

record meter_state =
  print_count :: int
  worked :: bool

record spp_state = meter_state +
  reconnect_count :: int

definition reconnect_threshold :: int where
  "reconnect_threshold = 20"

definition meter_header :: "byte list" where
  "meter_header = [0xff, 0x55, 0x01, 0x01]"

text \<open>
  The statements that follow the decoding of an accepted frame, which are the same in
  \<open>run_spp\<close> (lines 90 to 98) and in \<open>notify_cb\<close> (lines 128 to 136). The result holds
  the new \<open>print_count\<close>; \<open>worked\<close> is true afterwards. The operator \<open>%\<close> raises on a
  zero divisor.
\<close>

definition print_frame ::
    "meter_args \<Rightarrow> int \<Rightarrow> bool \<Rightarrow> reading \<Rightarrow> effect list \<times> (exc + int)" where
  "print_frame args pc w data =
     (let es = (if \<not> w then [Log SuccessfullyGotData] else []) @
               (if meter_debug args then [DebugPrint data] else [])
      in if interval args = 0 then (es, Inl (Exc ZeroDivisionError ''integer modulo by zero''))
         else if pc mod interval args = 0 then (es @ [InfluxPrint data], Inr (0 + 1))
         else (es, Inr (pc + 1)))"

text \<open>The body of the loop of \<open>run_spp\<close> once \<open>raw_data\<close> is read (lines 79 to 98).\<close>

definition spp_frame ::
    "meter_args \<Rightarrow> spp_state \<Rightarrow> byte list \<Rightarrow> effect list \<times> (exc + spp_state)" where
  "spp_frame args st raw_data =
     (if length raw_data < 32 \<or> py_slice raw_data 0 4 \<noteq> meter_header then
        (if reconnect_count st > reconnect_threshold then
           ([], Inl (Exc SerialException ''too many errors''))
         else
           ([Log (InvalidDataRetry (length raw_data) (reconnect_count st) reconnect_threshold)],
            Inr (st\<lparr>worked := False, reconnect_count := reconnect_count st + 1\<rparr>)))
      else
        (case print_frame args (print_count st) (worked st) (meter_parse_data raw_data) of
           (es, Inl e) \<Rightarrow> (es, Inl e)
         | (es, Inr pc) \<Rightarrow>
             (es, Inr (st\<lparr>reconnect_count := 0, worked := True, print_count := pc\<rparr>))))"

text \<open>
  How a run of \<open>run_spp\<close> over finitely many results of \<open>ser.read(36)\<close> ends: with an
  exception, or blocked in the next read.
\<close>

datatype spp_end = Raised exc | Reading spp_state

text \<open>
  The loop of \<open>run_spp\<close> (lines 75 to 98) over the results of the successive calls of
  \<open>ser.read(36)\<close>. An empty first read is followed by a second read in the same pass.
\<close>

fun run_spp_loop ::
    "meter_args \<Rightarrow> spp_state \<Rightarrow> (exc + byte list) list \<Rightarrow> effect list \<times> spp_end" where
  "run_spp_loop args st [] = ([], Reading st)"
| "run_spp_loop args st (Inl e # rs) = ([], Raised e)"
| "run_spp_loop args st (Inr raw_data # rs) =
     (if length raw_data = 0 then
        (case rs of
           [] \<Rightarrow> ([], Reading st)
         | Inl e # rs' \<Rightarrow> ([], Raised e)
         | Inr raw_data # rs' \<Rightarrow>
             (case spp_frame args st raw_data of
                (es, Inl e) \<Rightarrow> (es, Raised e)
              | (es, Inr st') \<Rightarrow>
                  (case run_spp_loop args st' rs' of (es', r) \<Rightarrow> (es @ es', r))))
      else
        (case spp_frame args st raw_data of
           (es, Inl e) \<Rightarrow> (es, Raised e)
         | (es, Inr st') \<Rightarrow>
             (case run_spp_loop args st' rs of (es', r) \<Rightarrow> (es @ es', r))))"

text \<open>
  One call of \<open>run_spp\<close>: opening the port, which may raise, and the reads that follow.
\<close>

record session =
  open_port :: "exc + unit"
  ser_reads :: "(exc + byte list) list"

definition run_spp :: "meter_args \<Rightarrow> session \<Rightarrow> effect list \<times> spp_end" where
  "run_spp args s =
     (case open_port s of
        Inl e \<Rightarrow> ([], Raised e)
      | Inr _ \<Rightarrow>
          run_spp_loop args \<lparr>print_count = 0, worked = False, reconnect_count = 0\<rparr> (ser_reads s))"

text \<open>
  The serial branch of \<open>main\<close> (lines 183 to 188), one session for each call of
  \<open>run_spp\<close>. Only \<open>SerialException\<close> is caught; any other exception leaves \<open>main\<close>.
\<close>

datatype main_end = Running | Propagated exc

fun main_spp :: "meter_args \<Rightarrow> session list \<Rightarrow> effect list \<times> main_end" where
  "main_spp args [] = ([], Running)"
| "main_spp args (s # ss) =
     (case run_spp args s of
        (es, Reading st) \<Rightarrow> (es, Running)
      | (es, Raised e) \<Rightarrow>
          (if exc_class e = SerialException then
             (case main_spp args ss of
                (es', r) \<Rightarrow> (es @ [Log (FailedToConnect e), Sleep 10] @ es', r))
           else (es, Propagated e)))"

text \<open>
  The callback \<open>notify_cb\<close> of the BLE path (lines 122 to 139) on one notification.
\<close>

definition notify_cb ::
    "meter_args \<Rightarrow> meter_state \<Rightarrow> byte list \<Rightarrow> effect list \<times> (exc + meter_state)" where
  "notify_cb args st data =
     (if length data = 36 \<and> py_slice data 0 4 = meter_header then
        (case print_frame args (print_count st) (worked st) (meter_parse_data data) of
           (es, Inl e) \<Rightarrow> (WatchDogTouch # es, Inl e)
         | (es, Inr pc) \<Rightarrow> (WatchDogTouch # es, Inr (st\<lparr>worked := True, print_count := pc\<rparr>)))
      else ([WatchDogTouch, Log (InvalidDataNotify data)], Inr (st\<lparr>worked := False\<rparr>)))"

section \<open>Properties of the sensor frame decoder\<close>

lemma length_py_slice: "length (py_slice xs i j) = min (j - i) (length xs - i)"
  by (simp add: py_slice_def)

lemma and_bit_int: "((x::int) AND 2 ^ n \<noteq> 0) = bit x n"
  using and_exp_eq_0_iff_not_bit[of x n] by simp

lemma status_bits:
  fixes x :: int
  shows "(x AND 0x80 \<noteq> 0) = bit x 7" "(x AND 0x40 \<noteq> 0) = bit x 6"
    "(x AND 0x20 \<noteq> 0) = bit x 5" "(x AND 0x10 \<noteq> 0) = bit x 4"
    "(x AND 0x01 \<noteq> 0) = bit x 0"
  using and_bit_int[of x 7] and_bit_int[of x 6] and_bit_int[of x 5] and_bit_int[of x 4]
    and_bit_int[of x 0]
  by simp_all

text \<open>A byte and-ed with any mask passes the range assertion of \<open>parse\<close>.\<close>

lemma masked_byte_range: "0 \<le> uint (b :: byte) AND m \<and> uint b AND m \<le> 255"
proof -
  have "uint b < 256" using uint_bounded[of b] by simp
  moreover have "uint b AND m \<le> uint b" by (rule AND_upper1) simp
  ultimately show ?thesis by simp
qed

lemma BLESensorStatus_parse_masked:
  "BLESensorStatus_parse (uint (b :: byte) AND m) =
     (let d = uint b AND m in
      if bit d 7 \<and> bit d 4 then Inl assertion_failed
      else Inr \<lparr> is_htu21d_online = bit d 7, is_bmp280_online = bit d 6,
                 is_gy302_online = bit d 5, is_sht4x_online = bit d 4,
                 is_end_of_battery = bit d 0 \<rparr>)"
  using masked_byte_range[of b m]
  by (simp add: BLESensorStatus_parse_def Let_def status_bits)

lemmas decoder_defs = supply_voltage_def sht4x_temperature_def sht4x_humidity_def
  htu21d_temperature_def htu21d_humidity_def bmp280_pressure_def bmp280_temperature_def
  gy302_light_def

lemmas parse_unfold = blitz_parse_data_def bindE_def BLESensorStatus_parse_masked decoder_defs
  length_py_slice Let_def

lemmas parse_eval = blitz_parse_data_def bindE_def BLESensorStatus_parse_def decoder_defs
  py_slice_def Let_def

lemma blitz_parse_data_raises:
  assumes "length raw = 17"
  shows "(\<exists>e. blitz_parse_data raw m = Inl e) =
           (bit (uint (raw ! 1) AND m) 7 \<and> bit (uint (raw ! 1) AND m) 4)"
    and "blitz_parse_data raw m = Inl e \<Longrightarrow> e = assertion_failed"
  using assms by (auto simp: parse_unfold split: if_splits)

lemma blitz_parse_data_length: "blitz_parse_data raw m = Inr ans \<Longrightarrow> length raw = 17"
  by (simp add: blitz_parse_data_def split: if_splits)

lemma blitz_parse_data_keys:
  assumes "blitz_parse_data raw m = Inr ans"
  shows "(''temperature'' \<in> dom ans) =
           (bit (uint (raw ! 1) AND m) 7 \<or> bit (uint (raw ! 1) AND m) 4)"
    and "(''humidity'' \<in> dom ans) =
           (bit (uint (raw ! 1) AND m) 7 \<or> bit (uint (raw ! 1) AND m) 4)"
    and "(''pressure'' \<in> dom ans) = bit (uint (raw ! 1) AND m) 6"
    and "(''temperature_aux'' \<in> dom ans) = bit (uint (raw ! 1) AND m) 6"
    and "(''light'' \<in> dom ans) = bit (uint (raw ! 1) AND m) 5"
  using assms by (auto simp: parse_unfold split: if_splits)

lemma htu21d_humidity_range: "htu21d_humidity d = Inr h \<Longrightarrow> 0 \<le> h \<and> h \<le> 100"
  by (auto simp: htu21d_humidity_def Let_def split: if_splits)

lemma sht4x_humidity_range: "sht4x_humidity d = Inr h \<Longrightarrow> 0 \<le> h \<and> h \<le> 100"
  by (auto simp: sht4x_humidity_def Let_def split: if_splits)

lemma blitz_parse_data_humidity:
  assumes "blitz_parse_data raw m = Inr ans" and "ans ''humidity'' = Some v"
  shows "\<exists>h. v = VFloat h \<and> 0 \<le> h \<and> h \<le> 100"
  using assms
  by (auto simp: blitz_parse_data_def bindE_def BLESensorStatus_parse_masked Let_def
      split: if_splits sum.splits dest: htu21d_humidity_range sht4x_humidity_range)

text \<open>
  Claim C6. Both humidity decoders return a value on every two-byte field, and the
  value lies between 0 and 100; so does every humidity that a decoded frame holds.
\<close>

theorem humidity_in_range:
  "(length data = 2 \<longrightarrow>
      (\<exists>h. htu21d_humidity data = Inr h \<and> 0 \<le> h \<and> h \<le> 100) \<and>
      (\<exists>h. sht4x_humidity data = Inr h \<and> 0 \<le> h \<and> h \<le> 100)) \<and>
   (blitz_parse_data raw_data msk = Inr ans \<and> ans ''humidity'' = Some v \<longrightarrow>
      (\<exists>h. v = VFloat h \<and> 0 \<le> h \<and> h \<le> 100))"
proof (intro conjI impI)
  assume len: "length data = 2"
  obtain h where h: "htu21d_humidity data = Inr h"
    using len by (simp add: htu21d_humidity_def Let_def)
  with htu21d_humidity_range[OF h]
  show "\<exists>h. htu21d_humidity data = Inr h \<and> 0 \<le> h \<and> h \<le> 100" by simp
  obtain k where k: "sht4x_humidity data = Inr k"
    using len by (simp add: sht4x_humidity_def Let_def)
  with sht4x_humidity_range[OF k]
  show "\<exists>h. sht4x_humidity data = Inr h \<and> 0 \<le> h \<and> h \<le> 100" by simp
next
  assume "blitz_parse_data raw_data msk = Inr ans \<and> ans ''humidity'' = Some v"
  then show "\<exists>h. v = VFloat h \<and> 0 \<le> h \<and> h \<le> 100"
    using blitz_parse_data_humidity by blast
qed

theorem humidity_in_range_witness:
  "htu21d_humidity [0xff, 0xff] = Inr 100 \<and> sht4x_humidity [0xff, 0xff] = Inr 100 \<and>
   htu21d_humidity [0, 0] = Inr 0 \<and>
   (\<exists>ans. blitz_parse_data
            [0x12, 0x80, 0xE4, 0x0C, 0, 0, 0xff, 0xff, 0, 0, 0, 0, 0, 0, 0, 0, 0x23] 0xff = Inr ans \<and>
          ans ''humidity'' = Some (VFloat 100) \<and>
          (\<exists>h. VFloat 100 = VFloat h \<and> 0 \<le> h \<and> h \<le> 100))"
proof -
  let ?f = "[0x12, 0x80, 0xE4, 0x0C, 0, 0, 0xff, 0xff, 0, 0, 0, 0, 0, 0, 0, 0, 0x23] :: byte list"
  obtain ans where ans: "blitz_parse_data ?f 0xff = Inr ans" "ans ''humidity'' = Some (VFloat 100)"
    by (simp add: parse_eval)
  have "\<exists>h. VFloat 100 = VFloat h \<and> 0 \<le> h \<and> h \<le> 100"
    using humidity_in_range[of "[0xff, 0xff]" ?f "0xff" ans "VFloat 100"] ans by simp
  moreover have "htu21d_humidity [0xff, 0xff] = Inr 100" "sht4x_humidity [0xff, 0xff] = Inr 100"
    "htu21d_humidity [0, 0] = Inr 0"
    by (simp_all add: decoder_defs Let_def)
  ultimately show ?thesis using ans by blast
qed

text \<open>
  Claim C7. A 17-byte frame whose masked status byte does not have both the HTU21D bit
  (bit 7) and the SHT4X bit (bit 4) decodes, and the reading has the keys
  \<open>temperature\<close> and \<open>humidity\<close> exactly if one of these two bits is set, the keys
  \<open>pressure\<close> and \<open>temperature_aux\<close> exactly if the BMP280 bit (bit 6) is set, and the
  key \<open>light\<close> exactly if the GY302 bit (bit 5) is set. A key that is not set is absent
  from the dictionary.
\<close>

theorem fields_follow_presence_bits:
  assumes "length raw_data = 17"
    and "\<not> (bit (uint (raw_data ! 1) AND msk) 7 \<and> bit (uint (raw_data ! 1) AND msk) 4)"
  shows "\<exists>ans. blitz_parse_data raw_data msk = Inr ans \<and>
           ((ans ''temperature'' \<noteq> None) =
              (bit (uint (raw_data ! 1) AND msk) 7 \<or> bit (uint (raw_data ! 1) AND msk) 4)) \<and>
           ((ans ''humidity'' \<noteq> None) =
              (bit (uint (raw_data ! 1) AND msk) 7 \<or> bit (uint (raw_data ! 1) AND msk) 4)) \<and>
           ((ans ''pressure'' \<noteq> None) = bit (uint (raw_data ! 1) AND msk) 6) \<and>
           ((ans ''temperature_aux'' \<noteq> None) = bit (uint (raw_data ! 1) AND msk) 6) \<and>
           ((ans ''light'' \<noteq> None) = bit (uint (raw_data ! 1) AND msk) 5)"
proof -
  have "\<not> (\<exists>e. blitz_parse_data raw_data msk = Inl e)"
    using blitz_parse_data_raises(1)[OF assms(1), of msk] assms(2) by simp
  then obtain ans where ans: "blitz_parse_data raw_data msk = Inr ans"
    by (cases "blitz_parse_data raw_data msk") auto
  show ?thesis
    using blitz_parse_data_keys[OF ans] ans by (auto simp: dom_def)
qed

theorem fields_follow_presence_bits_witness:
  "\<exists>ans. blitz_parse_data
           [0x12, 0x60, 0xE4, 0x0C, 1, 2, 3, 4, 5, 6, 7, 8, 9, 10, 11, 12, 0x23] 0xff = Inr ans \<and>
         ans ''temperature'' = None \<and> ans ''humidity'' = None \<and>
         ans ''pressure'' \<noteq> None \<and> ans ''temperature_aux'' \<noteq> None \<and> ans ''light'' \<noteq> None"
proof -
  let ?f = "[0x12, 0x60, 0xE4, 0x0C, 1, 2, 3, 4, 5, 6, 7, 8, 9, 10, 11, 12, 0x23] :: byte list"
  have d: "uint (?f ! 1) AND 0xff = 0x60" by simp
  have b: "\<not> bit (0x60 :: int) 7" "\<not> bit (0x60 :: int) 4" "bit (0x60 :: int) 6" "bit (0x60 :: int) 5"
    by (simp_all add: bit_iff_odd)
  show ?thesis
    using fields_follow_presence_bits[of ?f "0xff"] b unfolding d by simp
qed

text \<open>
  Claim C9. Every reading that the decoder returns holds the key \<open>supply_voltage\<close>,
  whatever the status byte and the mask are; its value is the little-endian 16-bit
  field of bytes 2 and 3, divided by 1000.
\<close>

theorem supply_voltage_always_present:
  assumes "blitz_parse_data raw_data msk = Inr ans"
  shows "ans ''supply_voltage'' =
           Some (VFloat (real_of_int (uint (raw_data ! 2) + 256 * uint (raw_data ! 3)) / 1000))"
proof -
  have len: "length raw_data = 17" using assms by (rule blitz_parse_data_length)
  then obtain b0 b1 b2 b3 rest where raw: "raw_data = b0 # b1 # b2 # b3 # rest"
    by (cases raw_data; simp; rename_tac x xs; case_tac xs; simp; rename_tac y ys;
        case_tac ys; simp; rename_tac z zs; case_tac zs; simp)
  have sl: "py_slice raw_data 2 4 = [raw_data ! 2, raw_data ! 3]"
    by (simp add: raw py_slice_def)
  have "ans ''supply_voltage'' =
          Some (VFloat (real_of_int (from_bytes_little (py_slice raw_data 2 4)) / 1000))"
    using assms len by (auto simp: parse_unfold split: if_splits)
  then show ?thesis by (simp add: sl)
qed

theorem supply_voltage_always_present_witness:
  "\<exists>ans. blitz_parse_data
           [0x12, 0xf0, 0xE4, 0x0C, 0, 0, 0, 0, 0, 0, 0, 0, 0, 0, 0, 0, 0x23] 0 = Inr ans \<and>
         ans ''supply_voltage'' = Some (VFloat 3.3) \<and> ans ''temperature'' = None \<and>
         ans ''pressure'' = None \<and> ans ''light'' = None"
proof -
  let ?f = "[0x12, 0xf0, 0xE4, 0x0C, 0, 0, 0, 0, 0, 0, 0, 0, 0, 0, 0, 0, 0x23] :: byte list"
  obtain ans where ans: "blitz_parse_data ?f 0 = Inr ans" "ans ''temperature'' = None"
    "ans ''pressure'' = None" "ans ''light'' = None"
    by (simp add: parse_eval)
  have "ans ''supply_voltage'' = Some (VFloat 3.3)"
    using supply_voltage_always_present[OF ans(1)] by simp
  with ans show ?thesis by blast
qed

section \<open>Properties of the read loop of the supervisor\<close>

lemma emitted_append: "emitted (xs @ ys) = emitted xs @ emitted ys"
  by (induction xs rule: emitted.induct) simp_all

lemma read_loop_body_invalid:
  assumes "is_connected ev" and "read_gatt_char ev = Inr raw_data"
    and "length raw_data \<noteq> 17 \<or> raw_data ! 0 \<noteq> 0x12 \<or> raw_data ! 16 \<noteq> 0x23"
  shows "read_loop_body args msk (w, tc) ev =
           (Log (InvalidData raw_data) #
              (if raw_data = replicate 17 0 then [Log DeviceNotReady, Sleep 30] else []),
            Continue, (False, tc))"
  using assms by (simp add: read_loop_body_def)

lemma read_loop_body_emits:
  assumes "emitted (fst (read_loop_body args msk st ev)) \<noteq> []"
  shows "\<exists>raw_data. read_gatt_char ev = Inr raw_data \<and> is_connected ev \<and>
           length raw_data = 17 \<and> raw_data ! 0 = 0x12 \<and> raw_data ! 16 = 0x23"
  using assms
  by (cases st)
     (auto simp: read_loop_body_def split: if_splits sum.splits option.splits pyval.splits)

lemma read_loop_body_both_bits:
  assumes "is_connected ev" and "read_gatt_char ev = Inr raw_data"
    and "length raw_data = 17" and "raw_data ! 0 = 0x12" and "raw_data ! 16 = 0x23"
    and "bit (uint (raw_data ! 1) AND msk) 7" and "bit (uint (raw_data ! 1) AND msk) 4"
  shows "blitz_parse_data raw_data msk = Inl assertion_failed"
    and "read_loop_body args msk st ev = ([], Raise assertion_failed, st)"
proof -
  have "\<exists>e. blitz_parse_data raw_data msk = Inl e"
    using blitz_parse_data_raises(1)[OF assms(3), of msk] assms(6,7) by simp
  then show p: "blitz_parse_data raw_data msk = Inl assertion_failed"
    using blitz_parse_data_raises(2)[OF assms(3)] by blast
  show "read_loop_body args msk st ev = ([], Raise assertion_failed, st)"
    using assms(1-5) p by (cases st) (simp add: read_loop_body_def)
qed

lemma on_exception_assertion:
  "on_exception assertion_failed tc =
     ([WatchDogOff, Log (FailedConnecting assertion_failed), Sleep 3], tc)"
  by (simp add: on_exception_def assertion_failed_def)

text \<open>
  The read loop over two runs of events is the loop over the first run, followed by the
  loop over the second if the first did not leave it.
\<close>

lemma read_loop_append:
  "read_loop args msk st (xs @ ys) =
     (case read_loop args msk st xs of
        (es, Continue, st') \<Rightarrow>
          (case read_loop args msk st' ys of (es', c, st'') \<Rightarrow> (es @ es', c, st''))
      | (es, c, st') \<Rightarrow> (es, c, st'))"
proof (induction xs arbitrary: st)
  case Nil
  then show ?case by (simp split: prod.splits)
next
  case (Cons x xs)
  show ?case
  proof (cases "read_loop_body args msk st x")
    case (fields es c st')
    then show ?thesis
      by (cases c) (simp_all add: Cons.IH split: prod.splits control.splits)
  qed
qed

text \<open>
  A pass of the read loop sets \<open>timeout_count\<close> to 0 if it hands over a reading and
  leaves it as it is otherwise.
\<close>

lemma read_loop_body_counter:
  assumes "read_loop_body args msk (w, tc) ev = (es, c, (w', tc'))"
  shows "(emitted es \<noteq> [] \<longrightarrow> tc' = 0) \<and> (emitted es = [] \<longrightarrow> tc' = tc)"
  using assms
  by (auto simp: read_loop_body_def emitted_append Let_def
      split: if_splits sum.splits option.splits pyval.splits)

lemma read_loop_counter:
  "read_loop args msk st evs = (es, c, st') \<Longrightarrow> emitted es = [] \<Longrightarrow> snd st' = snd st"
proof (induction evs arbitrary: st es c st')
  case Nil
  then show ?case by simp
next
  case (Cons ev evs)
  obtain w tc where st: "st = (w, tc)" by (cases st)
  obtain bes bc w1 tc1 where b: "read_loop_body args msk (w, tc) ev = (bes, bc, (w1, tc1))"
    by (cases "read_loop_body args msk (w, tc) ev") auto
  show ?case
  proof (cases bc)
    case Continue
    obtain es' c' st'' where r: "read_loop args msk (w1, tc1) evs = (es', c', st'')"
      by (cases "read_loop args msk (w1, tc1) evs")
    from Cons.prems b r Continue st have e: "es = bes @ es'" "st' = st''" by simp_all
    with Cons.prems(2) have "emitted bes = []" "emitted es' = []" by (simp_all add: emitted_append)
    with read_loop_body_counter[OF b] Cons.IH[OF r] e st show ?thesis by simp
  next
    case Break
    with Cons.prems b st have "es = bes" "st' = (w1, tc1)" by simp_all
    with read_loop_body_counter[OF b] Cons.prems(2) st show ?thesis by simp
  next
    case (Raise x)
    with Cons.prems b st have "es = bes" "st' = (w1, tc1)" by simp_all
    with read_loop_body_counter[OF b] Cons.prems(2) st show ?thesis by simp
  qed
qed

text \<open>
  Claim C4. In the read loop a payload that is not 17 bytes long, or whose byte 0 is not
  0x12, or whose byte 16 is not 0x23, is logged as invalid, hands no reading to
  \<open>influx_print\<close>, and the loop goes on with the next read; a pass of the loop that
  hands over a reading had a payload of 17 bytes with both markers.
\<close>

theorem invalid_frame_skipped:
  assumes "is_connected ev" and "read_gatt_char ev = Inr raw_data"
  shows "(length raw_data \<noteq> 17 \<or> raw_data ! 0 \<noteq> 0x12 \<or> raw_data ! 16 \<noteq> 0x23 \<longrightarrow>
           (\<exists>es. read_loop_body args msk (w, tc) ev = (es, Continue, (False, tc)) \<and>
                 emitted es = [] \<and> hd es = Log (InvalidData raw_data) \<and>
                 read_loop args msk (w, tc) (ev # evs) =
                   (case read_loop args msk (False, tc) evs of (es', r) \<Rightarrow> (es @ es', r)))) \<and>
         (emitted (fst (read_loop_body args msk (w, tc) ev)) \<noteq> [] \<longrightarrow>
            length raw_data = 17 \<and> raw_data ! 0 = 0x12 \<and> raw_data ! 16 = 0x23)"
proof (rule conjI; rule impI)
  assume inv: "length raw_data \<noteq> 17 \<or> raw_data ! 0 \<noteq> 0x12 \<or> raw_data ! 16 \<noteq> 0x23"
  have b: "read_loop_body args msk (w, tc) ev =
           (Log (InvalidData raw_data) #
              (if raw_data = replicate 17 0 then [Log DeviceNotReady, Sleep 30] else []),
            Continue, (False, tc))"
    using read_loop_body_invalid[OF assms inv] .
  show "\<exists>es. read_loop_body args msk (w, tc) ev = (es, Continue, (False, tc)) \<and>
                 emitted es = [] \<and> hd es = Log (InvalidData raw_data) \<and>
                 read_loop args msk (w, tc) (ev # evs) =
                   (case read_loop args msk (False, tc) evs of (es', r) \<Rightarrow> (es @ es', r))"
    by (simp add: b split: prod.splits)
next
  assume "emitted (fst (read_loop_body args msk (w, tc) ev)) \<noteq> []"
  from read_loop_body_emits[OF this] assms(2)
  show "length raw_data = 17 \<and> raw_data ! 0 = 0x12 \<and> raw_data ! 16 = 0x23" by auto
qed

theorem invalid_frame_skipped_witness:
  "\<exists>es. read_loop_body \<lparr>min_interval = 120, debug = False\<rparr> 0xff (True, 4)
           \<lparr>is_connected = True,
            read_gatt_char =
              Inr [0x12, 0x80, 0xE4, 0x0C, 0, 0, 0, 0, 0, 0, 0, 0, 0, 0, 0, 0, 0x24],
            elapsed = 0\<rparr> = (es, Continue, (False, 4)) \<and>
         emitted es = [] \<and>
         hd es = Log (InvalidData [0x12, 0x80, 0xE4, 0x0C, 0, 0, 0, 0, 0, 0, 0, 0, 0, 0, 0, 0, 0x24])"
proof -
  let ?f = "[0x12, 0x80, 0xE4, 0x0C, 0, 0, 0, 0, 0, 0, 0, 0, 0, 0, 0, 0, 0x24] :: byte list"
  let ?ev = "\<lparr>is_connected = True, read_gatt_char = Inr ?f, elapsed = 0\<rparr>"
  let ?args = "\<lparr>min_interval = 120, debug = False\<rparr>"
  have p: "is_connected ?ev" "read_gatt_char ?ev = Inr ?f" by simp_all
  have q: "length ?f \<noteq> 17 \<or> ?f ! 0 \<noteq> 0x12 \<or> ?f ! 16 \<noteq> 0x23" by simp
  from invalid_frame_skipped[OF p, of ?args "0xff" True 4 "[]", THEN conjunct1, rule_format, OF q]
  obtain es where "read_loop_body ?args 0xff (True, 4) ?ev = (es, Continue, (False, 4))"
    "emitted es = []" "hd es = Log (InvalidData ?f)"
    by blast
  then show ?thesis by blast
qed

text \<open>
  Claim C8, as the code has it. A payload of 17 zero bytes fails the framing test like
  any malformed payload and is logged as invalid data; inside that branch it is then
  recognised as "device is not ready": it is logged so, a sleep of 30 seconds follows, no
  reading is handed over, and the loop goes on with the next read. Any other invalid
  payload is followed by no sleep and is not reported as "not ready".
\<close>

theorem all_zero_frame_not_ready:
  assumes "is_connected ev" and "read_gatt_char ev = Inr raw_data"
  shows "(raw_data = replicate 17 0 \<longrightarrow>
            read_loop_body args msk (w, tc) ev =
              ([Log (InvalidData raw_data), Log DeviceNotReady, Sleep 30],
               Continue, (False, tc)) \<and>
            emitted (fst (read_loop_body args msk (w, tc) ev)) = [] \<and>
            sleeps (fst (read_loop_body args msk (w, tc) ev)) = [30] \<and>
            read_loop args msk (w, tc) (ev # evs) =
              (case read_loop args msk (False, tc) evs of
                 (es', r) \<Rightarrow>
                   ([Log (InvalidData raw_data), Log DeviceNotReady, Sleep 30] @ es', r))) \<and>
         (raw_data \<noteq> replicate 17 0 \<and>
          (length raw_data \<noteq> 17 \<or> raw_data ! 0 \<noteq> 0x12 \<or> raw_data ! 16 \<noteq> 0x23) \<longrightarrow>
            read_loop_body args msk (w, tc) ev =
              ([Log (InvalidData raw_data)], Continue, (False, tc)))"
proof (rule conjI; rule impI)
  assume z: "raw_data = replicate 17 0"
  then have "length raw_data \<noteq> 17 \<or> raw_data ! 0 \<noteq> 0x12 \<or> raw_data ! 16 \<noteq> 0x23"
    by simp
  from read_loop_body_invalid[OF assms this, of args msk w tc] z
  show "read_loop_body args msk (w, tc) ev =
              ([Log (InvalidData raw_data), Log DeviceNotReady, Sleep 30],
               Continue, (False, tc)) \<and>
            emitted (fst (read_loop_body args msk (w, tc) ev)) = [] \<and>
            sleeps (fst (read_loop_body args msk (w, tc) ev)) = [30] \<and>
            read_loop args msk (w, tc) (ev # evs) =
              (case read_loop args msk (False, tc) evs of
                 (es', r) \<Rightarrow>
                   ([Log (InvalidData raw_data), Log DeviceNotReady, Sleep 30] @ es', r))"
    by (simp split: prod.splits)
next
  assume "raw_data \<noteq> replicate 17 0 \<and>
          (length raw_data \<noteq> 17 \<or> raw_data ! 0 \<noteq> 0x12 \<or> raw_data ! 16 \<noteq> 0x23)"
  then show "read_loop_body args msk (w, tc) ev =
              ([Log (InvalidData raw_data)], Continue, (False, tc))"
    using read_loop_body_invalid[OF assms, of args msk w tc] by simp
qed

theorem all_zero_frame_not_ready_witness:
  "read_loop_body \<lparr>min_interval = 120, debug = False\<rparr> 0xff (True, 0)
     \<lparr>is_connected = True, read_gatt_char = Inr (replicate 17 0), elapsed = 0\<rparr> =
     ([Log (InvalidData (replicate 17 0)), Log DeviceNotReady, Sleep 30], Continue, (False, 0)) \<and>
   read_loop_body \<lparr>min_interval = 120, debug = False\<rparr> 0xff (True, 0)
     \<lparr>is_connected = True, read_gatt_char = Inr (replicate 16 0), elapsed = 0\<rparr> =
     ([Log (InvalidData (replicate 16 0))], Continue, (False, 0))"
proof -
  let ?args = "\<lparr>min_interval = 120, debug = False\<rparr>"
  have ne: "replicate 16 (0 :: byte) \<noteq> replicate 17 0"
    by simp
  show ?thesis
    using all_zero_frame_not_ready
            [of "\<lparr>is_connected = True, read_gatt_char = Inr (replicate 17 0), elapsed = 0\<rparr>"
                "replicate 17 0" ?args "0xff" True 0 "[]"]
          all_zero_frame_not_ready
            [of "\<lparr>is_connected = True, read_gatt_char = Inr (replicate 16 0), elapsed = 0\<rparr>"
                "replicate 16 0" ?args "0xff" True 0 "[]"] ne
    by simp
qed

text \<open>
  The claim as written fails where it says that the payload of zeros is never treated as
  a malformed frame: its first action is the log line of the generic invalid branch,
  the same that a payload with a wrong marker gets, and the state changes in the same
  way.
\<close>

theorem all_zero_frame_not_ready_counterexample:
  "read_loop_body \<lparr>min_interval = 60, debug = True\<rparr> 0xff (True, 3)
     \<lparr>is_connected = True, read_gatt_char = Inr (replicate 17 0), elapsed = 1\<rparr> =
     (Log (InvalidData (replicate 17 0)) # [Log DeviceNotReady, Sleep 30], Continue, (False, 3)) \<and>
   read_loop_body \<lparr>min_interval = 60, debug = True\<rparr> 0xff (True, 3)
     \<lparr>is_connected = True,
      read_gatt_char = Inr [0x13, 0, 0, 0, 0, 0, 0, 0, 0, 0, 0, 0, 0, 0, 0, 0, 0x23],
      elapsed = 1\<rparr> =
     (Log (InvalidData [0x13, 0, 0, 0, 0, 0, 0, 0, 0, 0, 0, 0, 0, 0, 0, 0, 0x23]) # [],
      Continue, (False, 3))"
proof -
  have "hd [0x13, 0, 0, 0, 0, 0, 0, 0, 0, 0, 0, 0, 0, 0, 0, 0, 0x23] \<noteq>
        hd (replicate 17 (0 :: byte))"
    by simp
  then have "[0x13, 0, 0, 0, 0, 0, 0, 0, 0, 0, 0, 0, 0, 0, 0, 0, 0x23] \<noteq>
             replicate 17 (0 :: byte)"
    by (rule contrapos_nn) (rule arg_cong)
  then show ?thesis by (simp add: read_loop_body_def)
qed

text \<open>
  Claim C1, as the code has it. A payload of 17 bytes with both markers whose masked
  status byte has the HTU21D bit (bit 7) and the SHT4X bit (bit 4), read in any pass of
  the read loop, makes \<open>parse_data\<close> raise \<open>AssertionError\<close>: no reading is built
  and neither sensor is chosen. The exception is not handled inside the read loop: it
  ends the loop, whatever events would follow, and the client is left. If leaving the
  client succeeds, the handler of the outer loop gets the \<open>AssertionError\<close>, logs a
  failed connection, sleeps 3 seconds and keeps \<open>timeout_count\<close>; if leaving the
  client raises, that exception takes the place of the \<open>AssertionError\<close> and the
  handler does what it does for that exception. In both cases the pass of the outer
  loop ends and the supervisor starts the next pass.
\<close>

theorem both_sensor_bits_raise:
  assumes "length raw_data = 17" and "raw_data ! 0 = 0x12" and "raw_data ! 16 = 0x23"
    and "bit (uint (raw_data ! 1) AND msk) 7" and "bit (uint (raw_data ! 1) AND msk) 4"
    and "is_connected ev" and "read_gatt_char ev = Inr raw_data"
  shows "blitz_parse_data raw_data msk = Inl assertion_failed \<and>
         read_loop_body args msk st ev = ([], Raise assertion_failed, st) \<and>
         (read_loop args msk st0 evs1 = (es1, Continue, st1) \<longrightarrow>
            read_loop args msk st0 (evs1 @ ev # evs2) = (es1, Raise assertion_failed, st1)) \<and>
         (find_device_by_address a = Inr True \<and> enter_client a = Inr () \<and>
          reads a = evs1 @ ev # evs2 \<and>
          read_loop args msk (False, tc) evs1 = (es1, Continue, (w1, tc1)) \<longrightarrow>
            (exit_client a = Inr () \<longrightarrow>
               blitz_access_attempt args address msk tc a =
                 ([Log WillConnect, Log Scanning, WatchDogOn, WatchDogOff, Log Found, WatchDogOn,
                   WatchDogOff, Log Connected] @ es1 @
                  [WatchDogOff, Log (FailedConnecting assertion_failed), Sleep 3], tc1, True)) \<and>
            (exit_client a = Inl e' \<longrightarrow>
               blitz_access_attempt args address msk tc a =
                 ([Log WillConnect, Log Scanning, WatchDogOn, WatchDogOff, Log Found, WatchDogOn,
                   WatchDogOff, Log Connected] @ es1 @ fst (on_exception e' tc1),
                  snd (on_exception e' tc1), True))) \<and>
         (blitz_access_attempt args address msk tc a = (aes, tc', True) \<longrightarrow>
            blitz_access_loop args address msk tc (a # as) =
              (case blitz_access_loop args address msk tc' as of
                 (es', tc'') \<Rightarrow> (aes @ es', tc'')))"
proof -
  note b = read_loop_body_both_bits[OF assms(6,7,1,2,3,4,5)]
  have l: "read_loop args msk s (ev # evs2) = ([], Raise assertion_failed, s)" for s
    by (simp add: b(2))
  have 3: "read_loop args msk st0 evs1 = (es1, Continue, st1) \<longrightarrow>
            read_loop args msk st0 (evs1 @ ev # evs2) = (es1, Raise assertion_failed, st1)"
    using l[of st1] by (simp add: read_loop_append del: read_loop.simps)
  have 4: "find_device_by_address a = Inr True \<and> enter_client a = Inr () \<and>
          reads a = evs1 @ ev # evs2 \<and>
          read_loop args msk (False, tc) evs1 = (es1, Continue, (w1, tc1)) \<longrightarrow>
            (exit_client a = Inr () \<longrightarrow>
               blitz_access_attempt args address msk tc a =
                 ([Log WillConnect, Log Scanning, WatchDogOn, WatchDogOff, Log Found, WatchDogOn,
                   WatchDogOff, Log Connected] @ es1 @
                  [WatchDogOff, Log (FailedConnecting assertion_failed), Sleep 3], tc1, True)) \<and>
            (exit_client a = Inl e' \<longrightarrow>
               blitz_access_attempt args address msk tc a =
                 ([Log WillConnect, Log Scanning, WatchDogOn, WatchDogOff, Log Found, WatchDogOn,
                   WatchDogOff, Log Connected] @ es1 @ fst (on_exception e' tc1),
                  snd (on_exception e' tc1), True))"
  proof
    assume h: "find_device_by_address a = Inr True \<and> enter_client a = Inr () \<and>
          reads a = evs1 @ ev # evs2 \<and>
          read_loop args msk (False, tc) evs1 = (es1, Continue, (w1, tc1))"
    then have r: "read_loop args msk (False, tc) (reads a) =
                    (es1, Raise assertion_failed, (w1, tc1))"
      using l[of "(w1, tc1)"] by (simp add: read_loop_append del: read_loop.simps)
    show "(exit_client a = Inr () \<longrightarrow>
               blitz_access_attempt args address msk tc a =
                 ([Log WillConnect, Log Scanning, WatchDogOn, WatchDogOff, Log Found, WatchDogOn,
                   WatchDogOff, Log Connected] @ es1 @
                  [WatchDogOff, Log (FailedConnecting assertion_failed), Sleep 3], tc1, True)) \<and>
            (exit_client a = Inl e' \<longrightarrow>
               blitz_access_attempt args address msk tc a =
                 ([Log WillConnect, Log Scanning, WatchDogOn, WatchDogOff, Log Found, WatchDogOn,
                   WatchDogOff, Log Connected] @ es1 @ fst (on_exception e' tc1),
                  snd (on_exception e' tc1), True))"
      using h r
      by (simp add: blitz_access_attempt_def handled_def on_exception_assertion
          split: prod.splits)
  qed
  have 5: "blitz_access_attempt args address msk tc a = (aes, tc', True) \<longrightarrow>
            blitz_access_loop args address msk tc (a # as) =
              (case blitz_access_loop args address msk tc' as of
                 (es', tc'') \<Rightarrow> (aes @ es', tc''))"
    by simp
  from b 3 4 5 show ?thesis by blast
qed

theorem both_sensor_bits_raise_witness:
  "blitz_access_attempt \<lparr>min_interval = 120, debug = False\<rparr> ''AA:BB'' 0xff 0
     \<lparr>find_device_by_address = Inr True, enter_client = Inr (),
      reads = [\<lparr>is_connected = True,
                read_gatt_char =
                  Inr [0x12, 0x90, 0xE4, 0x0C, 0, 0, 0, 0, 0, 0, 0, 0, 0, 0, 0, 0, 0x23],
                elapsed = 0\<rparr>],
      exit_client = Inr ()\<rparr> =
   ([Log WillConnect, Log Scanning, WatchDogOn, WatchDogOff, Log Found, WatchDogOn,
     WatchDogOff, Log Connected,
     WatchDogOff, Log (FailedConnecting assertion_failed), Sleep 3], 0, True) \<and>
   sleeps (fst (blitz_access_attempt \<lparr>min_interval = 120, debug = False\<rparr> ''AA:BB'' 0xff 10
     \<lparr>find_device_by_address = Inr True, enter_client = Inr (),
      reads = [\<lparr>is_connected = True,
                read_gatt_char =
                  Inr [0x12, 0x90, 0xE4, 0x0C, 0, 0, 0, 0, 0, 0, 0, 0, 0, 0, 0, 0, 0x23],
                elapsed = 0\<rparr>],
      exit_client = Inl (Exc TimeoutError [])\<rparr>)) = [60, 3]"
proof -
  let ?f = "[0x12, 0x90, 0xE4, 0x0C, 0, 0, 0, 0, 0, 0, 0, 0, 0, 0, 0, 0, 0x23] :: byte list"
  let ?ev = "\<lparr>is_connected = True, read_gatt_char = Inr ?f, elapsed = 0\<rparr>"
  let ?a = "\<lparr>find_device_by_address = Inr True, enter_client = Inr (), reads = [?ev],
             exit_client = Inr ()\<rparr>"
  let ?a' = "\<lparr>find_device_by_address = Inr True, enter_client = Inr (), reads = [?ev],
             exit_client = Inl (Exc TimeoutError [])\<rparr>"
  let ?args = "\<lparr>min_interval = 120, debug = False\<rparr>"
  have p: "length ?f = 17" "?f ! 0 = 0x12" "?f ! 16 = 0x23" by simp_all
  have d: "uint (?f ! 1) AND 0xff = 0x90" by simp
  have q: "bit (uint (?f ! 1) AND 0xff) 7" "bit (uint (?f ! 1) AND 0xff) 4"
    unfolding d by (simp_all add: bit_iff_odd)
  have c: "is_connected ?ev" "read_gatt_char ?ev = Inr ?f" by simp_all
  note t = both_sensor_bits_raise[OF p q c]
  from t[where args = ?args and ?st0.0 = "(False, 0)" and ?evs1.0 = "[]" and ?es1.0 = "[]"
           and a = ?a and tc = 0 and ?w1.0 = False and ?tc1.0 = 0 and ?evs2.0 = "[]"
           and address = "''AA:BB''"]
  have 1: "blitz_access_attempt ?args ''AA:BB'' 0xff 0 ?a =
     ([Log WillConnect, Log Scanning, WatchDogOn, WatchDogOff, Log Found, WatchDogOn,
       WatchDogOff, Log Connected,
       WatchDogOff, Log (FailedConnecting assertion_failed), Sleep 3], 0, True)"
    by simp
  from t[where args = ?args and ?st0.0 = "(False, 10)" and ?evs1.0 = "[]" and ?es1.0 = "[]"
           and a = ?a' and tc = 10 and ?w1.0 = False and ?tc1.0 = 10 and ?evs2.0 = "[]"
           and e' = "Exc TimeoutError []" and address = "''AA:BB''"]
  have 2: "sleeps (fst (blitz_access_attempt ?args ''AA:BB'' 0xff 10 ?a')) = [60, 3]"
    by (simp add: on_exception_def Let_def)
  from 1 2 show ?thesis by simp
qed

text \<open>
  The claim as written fails for the payload below: the read loop does not skip it and
  go on (\<open>Continue\<close>) but is left by the exception, and the valid payload that the
  device would send next is not read by this loop.
\<close>

theorem both_sensor_bits_counterexample:
  "read_loop \<lparr>min_interval = 120, debug = False\<rparr> 0xff (False, 0)
     [\<lparr>is_connected = True,
       read_gatt_char = Inr [0x12, 0x90, 0xE4, 0x0C, 0, 0, 0, 0, 0, 0, 0, 0, 0, 0, 0, 0, 0x23],
       elapsed = 0\<rparr>,
      \<lparr>is_connected = True,
       read_gatt_char = Inr [0x12, 0x80, 0xE4, 0x0C, 0, 0, 0, 0, 0, 0, 0, 0, 0, 0, 0, 0, 0x23],
       elapsed = 0\<rparr>]
   = ([], Raise (Exc AssertionError []), (False, 0))"
  by (simp add: read_loop_body_def parse_eval assertion_failed_def)

section \<open>Properties of the outer loop of the supervisor\<close>

lemma sleeps_append: "sleeps (xs @ ys) = sleeps xs @ sleeps ys"
  by (induction xs rule: sleeps.induct) simp_all

lemma on_exception_timeout:
  assumes "\<not> py_in ''No powered Bluetooth adapters found'' msg"
    and "\<not> py_in ''[org.bluez.Error.InProgress]'' msg"
  shows "on_exception (Exc TimeoutError msg) tc =
           (if tc + 1 > 10 then
              ([WatchDogOff, Log (FailedConnecting (Exc TimeoutError msg)), Log TooManyTimeouts,
                Sleep 60, Sleep 3], tc + 1)
            else ([WatchDogOff, Log (FailedConnecting (Exc TimeoutError msg)), Sleep 3], tc + 1))"
  using assms by (simp add: on_exception_def Let_def)

text \<open>
  A pass of the outer loop in which the scan or the connect raises a timeout whose text
  names neither the missing adapter nor the busy device.
\<close>

lemma attempt_timeout:
  assumes "\<not> py_in ''No powered Bluetooth adapters found'' msg"
    and "\<not> py_in ''[org.bluez.Error.InProgress]'' msg"
    and "find_device_by_address a = Inl (Exc TimeoutError msg) \<or>
         find_device_by_address a = Inr True \<and> enter_client a = Inl (Exc TimeoutError msg)"
  shows "\<exists>es. blitz_access_attempt args address msk tc a = (es, tc + 1, True) \<and>
              sleeps es = (if tc + 1 > 10 then [60, 3] else [3])"
  using assms(3)
  by (auto simp: blitz_access_attempt_def handled_def on_exception_timeout[OF assms(1,2)])

lemma loop_timeouts:
  assumes "\<forall>a\<in>set as. \<exists>msg.
             \<not> py_in ''No powered Bluetooth adapters found'' msg \<and>
             \<not> py_in ''[org.bluez.Error.InProgress]'' msg \<and>
             (find_device_by_address a = Inl (Exc TimeoutError msg) \<or>
              find_device_by_address a = Inr True \<and> enter_client a = Inl (Exc TimeoutError msg))"
  shows "\<exists>es. blitz_access_loop args address msk tc as = (es, tc + int (length as)) \<and>
              sleeps es =
                concat (map (\<lambda>k. if tc + int k > 10 then [60, 3] else [3]) [1..<Suc (length as)])"
  using assms
proof (induction as arbitrary: tc)
  case Nil
  then show ?case by simp
next
  case (Cons a as)
  from Cons.prems obtain es where
    a: "blitz_access_attempt args address msk tc a = (es, tc + 1, True)"
       "sleeps es = (if tc + 1 > 10 then [60, 3] else [3])"
    using attempt_timeout[of _ a args address msk tc] by force
  from Cons.IH[of "tc + 1"] Cons.prems obtain es' where
    r: "blitz_access_loop args address msk (tc + 1) as = (es', tc + 1 + int (length as))"
       "sleeps es' =
          concat (map (\<lambda>k. if tc + 1 + int k > 10 then [60, 3] else [3]) [1..<Suc (length as)])"
    by auto
  have sh: "[1..<Suc (length (a # as))] = 1 # map Suc [1..<Suc (length as)]"
    by (simp add: map_Suc_upt upt_conv_Cons del: upt_Suc)
  have "sleeps (es @ es') =
          concat (map (\<lambda>k. if tc + int k > 10 then [60, 3] else [3]) [1..<Suc (length (a # as))])"
    unfolding sh by (simp add: sleeps_append a(2) r(2) o_def add.commute add.left_commute)
  then show ?case using a(1) r(1) by simp
qed

lemma upt_11: "[1..<Suc 11] = [1, 2, 3, 4, 5, 6, 7, 8, 9, 10, 11]"
  by (simp add: upt_rec)

text \<open>
  The handler never lowers \<open>timeout_count\<close>, and neither does a pass of the outer loop
  nor a run of passes in which no reading is handed over.
\<close>

lemma on_exception_counter: "on_exception e tc = (es, tc') \<Longrightarrow> tc' = tc \<or> tc' = tc + 1"
  by (auto simp: on_exception_def Let_def split: if_splits)

lemma on_exception_emits: "emitted (fst (on_exception e tc)) = []"
  by (simp add: on_exception_def Let_def)

lemma handled_counter:
  "handled pre e tc = (es, tc', b) \<Longrightarrow> tc' = tc \<or> tc' = tc + 1"
  using on_exception_counter[of e tc]
  by (auto simp: handled_def split: prod.splits)

lemma handled_emits:
  "handled pre e tc = (es, tc', b) \<Longrightarrow> emitted es = emitted pre"
  using on_exception_emits[of e tc]
  by (auto simp: handled_def emitted_append split: prod.splits)

lemma attempt_counter:
  assumes "blitz_access_attempt args address msk tc a = (es, tc', b)" and "emitted es = []"
  shows "tc' = tc \<or> tc' = tc + 1"
proof (cases "find_device_by_address a")
  case (Inl e)
  with assms(1) show ?thesis
    by (auto simp: blitz_access_attempt_def dest: handled_counter)
next
  case (Inr device)
  show ?thesis
  proof (cases device)
    case False
    with assms(1) Inr show ?thesis
      by (auto simp: blitz_access_attempt_def dest: handled_counter)
  next
    case True
    show ?thesis
    proof (cases "enter_client a")
      case (Inl e)
      with assms(1) Inr True show ?thesis
        by (auto simp: blitz_access_attempt_def dest: handled_counter)
    next
      case entered: (Inr u)
      let ?pre = "[Log WillConnect, Log Scanning, WatchDogOn, WatchDogOff, Log Found, WatchDogOn,
                   WatchDogOff, Log Connected]"
      obtain res c w1 tc1 where r: "read_loop args msk (False, tc) (reads a) = (res, c, (w1, tc1))"
        by (cases "read_loop args msk (False, tc) (reads a)") auto
      have k: "emitted res = [] \<Longrightarrow> tc1 = tc" using read_loop_counter[OF r] by simp
      show ?thesis
      proof (cases c)
        case Continue
        with assms Inr True entered r have "es = ?pre @ res" "tc' = tc1"
          by (simp_all add: blitz_access_attempt_def)
        with assms(2) k show ?thesis by (simp add: emitted_append)
      next
        case Break
        show ?thesis
        proof (cases "exit_client a")
          case (Inl e)
          with assms(1) Inr True entered r Break
          have h: "handled (?pre @ res) e tc1 = (es, tc', b)"
            by (simp add: blitz_access_attempt_def)
          from handled_emits[OF h] assms(2) have "emitted res = []" by (simp add: emitted_append)
          with k handled_counter[OF h] show ?thesis by simp
        next
          case exited: (Inr u')
          with assms(1) Inr True entered r Break
          have "es = ?pre @ res @ [Log DisconnectedRetry, Sleep 3]" "tc' = tc1"
            by (simp_all add: blitz_access_attempt_def)
          with assms(2) k show ?thesis by (simp add: emitted_append)
        qed
      next
        case (Raise x)
        obtain e where h: "handled (?pre @ res) e tc1 = (es, tc', b)"
          using assms(1) Inr True entered r Raise
          by (cases "exit_client a") (simp_all add: blitz_access_attempt_def)
        from handled_emits[OF h] assms(2) have "emitted res = []" by (simp add: emitted_append)
        with k handled_counter[OF h] show ?thesis by simp
      qed
    qed
  qed
qed

lemma loop_counter:
  "blitz_access_loop args address msk tc as = (es, tc') \<Longrightarrow> emitted es = [] \<Longrightarrow> tc \<le> tc'"
proof (induction as arbitrary: tc es tc')
  case Nil
  then show ?case by simp
next
  case (Cons a as)
  obtain aes tc1 b where a: "blitz_access_attempt args address msk tc a = (aes, tc1, b)"
    by (cases "blitz_access_attempt args address msk tc a")
  show ?case
  proof (cases b)
    case False
    with Cons.prems a have "es = aes" "tc' = tc1" by simp_all
    with attempt_counter[OF a] Cons.prems(2) show ?thesis by auto
  next
    case True
    obtain es' tc2 where r: "blitz_access_loop args address msk tc1 as = (es', tc2)"
      by (cases "blitz_access_loop args address msk tc1 as")
    with Cons.prems a True have e: "es = aes @ es'" "tc' = tc2" by simp_all
    with Cons.prems(2) have "emitted aes = []" "emitted es' = []" by (simp_all add: emitted_append)
    with attempt_counter[OF a] Cons.IH[OF r] e show ?thesis by auto
  qed
qed

text \<open>
  Claim C2, as the code has it. Passes of the outer loop in a row in which the scan or
  the connect raises a timeout (whose text names neither a missing adapter nor a busy
  device), starting with \<open>timeout_count = tc\<close>: after \<open>n\<close> such passes the counter is
  \<open>tc + n\<close>, and the \<open>k\<close>-th of them sleeps 60 seconds and then the usual 3 seconds if
  \<open>tc + k\<close> exceeds 10, and 3 seconds otherwise. From \<open>tc = 0\<close>, eleven such passes
  sleep 3 seconds ten times, and the eleventh makes the counter 11 and sleeps 60 and 3
  seconds. The counter is not reset there: once it is at least 10 every further timeout
  sleeps 60 and 3 seconds. The handler leaves the counter as it is or adds one, for
  every exception; a pass of the read loop sets it to 0 if it hands over a reading and
  leaves it as it is otherwise; so it does not decrease over passes of the outer loop in
  which no reading is handed over.
\<close>

theorem eleven_timeouts:
  assumes "\<forall>a\<in>set as. \<exists>msg.
           \<not> py_in ''No powered Bluetooth adapters found'' msg \<and>
           \<not> py_in ''[org.bluez.Error.InProgress]'' msg \<and>
           (find_device_by_address a = Inl (Exc TimeoutError msg) \<or>
            find_device_by_address a = Inr True \<and> enter_client a = Inl (Exc TimeoutError msg))"
  shows "(\<exists>es. blitz_access_loop args address msk tc as = (es, tc + int (length as)) \<and>
               sleeps es =
                 concat (map (\<lambda>k. if tc + int k > 10 then [60, 3] else [3])
                           [1..<Suc (length as)])) \<and>
         (length as = 11 \<longrightarrow>
            (\<exists>es. blitz_access_loop args address msk 0 as = (es, 11) \<and>
                  sleeps es = [3, 3, 3, 3, 3, 3, 3, 3, 3, 3, 60, 3])) \<and>
         (10 \<le> tc \<longrightarrow>
            (\<exists>es. blitz_access_loop args address msk tc as = (es, tc + int (length as)) \<and>
                  sleeps es = concat (replicate (length as) [60, 3]))) \<and>
         (on_exception e c1 = (hes, c2) \<longrightarrow> c2 = c1 \<or> c2 = c1 + 1) \<and>
         (read_loop_body args msk (w, c3) ev = (bes, ctl, (w', c4)) \<longrightarrow>
            (emitted bes \<noteq> [] \<longrightarrow> c4 = 0) \<and> (emitted bes = [] \<longrightarrow> c4 = c3)) \<and>
         (blitz_access_loop args address msk c5 bs = (les, c6) \<and> emitted les = [] \<longrightarrow> c5 \<le> c6)"
proof -
  note g = loop_timeouts[OF assms, of args address msk]
  have 1: "\<exists>es. blitz_access_loop args address msk tc as = (es, tc + int (length as)) \<and>
               sleeps es =
                 concat (map (\<lambda>k. if tc + int k > 10 then [60, 3] else [3])
                           [1..<Suc (length as)])"
    using g[of tc] .
  have 2: "length as = 11 \<longrightarrow>
            (\<exists>es. blitz_access_loop args address msk 0 as = (es, 11) \<and>
                  sleeps es = [3, 3, 3, 3, 3, 3, 3, 3, 3, 3, 60, 3])"
  proof
    assume len: "length as = 11"
    from g[of 0] show "\<exists>es. blitz_access_loop args address msk 0 as = (es, 11) \<and>
                  sleeps es = [3, 3, 3, 3, 3, 3, 3, 3, 3, 3, 60, 3]"
      unfolding len upt_11 by simp
  qed
  have 3: "10 \<le> tc \<longrightarrow>
            (\<exists>es. blitz_access_loop args address msk tc as = (es, tc + int (length as)) \<and>
                  sleeps es = concat (replicate (length as) [60, 3]))"
  proof
    assume t: "10 \<le> tc"
    have "map (\<lambda>k. if tc + int k > 10 then [60, 3] else [3 :: real]) [1..<Suc (length as)] =
          map (\<lambda>k. [60, 3]) [1..<Suc (length as)]"
      using t by (intro map_cong) auto
    also have "\<dots> = replicate (length as) [60, 3]"
      by (simp add: map_replicate_const del: upt_Suc)
    finally show "\<exists>es. blitz_access_loop args address msk tc as = (es, tc + int (length as)) \<and>
                  sleeps es = concat (replicate (length as) [60, 3])"
      using 1 by simp
  qed
  have 4: "on_exception e c1 = (hes, c2) \<longrightarrow> c2 = c1 \<or> c2 = c1 + 1"
    using on_exception_counter by blast
  have 5: "read_loop_body args msk (w, c3) ev = (bes, ctl, (w', c4)) \<longrightarrow>
            (emitted bes \<noteq> [] \<longrightarrow> c4 = 0) \<and> (emitted bes = [] \<longrightarrow> c4 = c3)"
    using read_loop_body_counter by blast
  have 6: "blitz_access_loop args address msk c5 bs = (les, c6) \<and> emitted les = [] \<longrightarrow> c5 \<le> c6"
    using loop_counter by blast
  from 1 2 3 4 5 6 show ?thesis by blast
qed

lemma timeout_attempts:
  "\<forall>a\<in>set (replicate 11 \<lparr>find_device_by_address = Inl (Exc TimeoutError []),
                            enter_client = Inr (), reads = [], exit_client = Inr ()\<rparr>). \<exists>msg.
           \<not> py_in ''No powered Bluetooth adapters found'' msg \<and>
           \<not> py_in ''[org.bluez.Error.InProgress]'' msg \<and>
           (find_device_by_address a = Inl (Exc TimeoutError msg) \<or>
            find_device_by_address a = Inr True \<and> enter_client a = Inl (Exc TimeoutError msg))"
  by (auto intro!: exI[of _ "[]"])

theorem eleven_timeouts_witness:
  "\<exists>es. blitz_access_loop \<lparr>min_interval = 120, debug = False\<rparr> ''AA:BB'' 0xff 0
           (replicate 11 \<lparr>find_device_by_address = Inl (Exc TimeoutError []),
                           enter_client = Inr (), reads = [], exit_client = Inr ()\<rparr>) = (es, 11) \<and>
        sleeps es = [3, 3, 3, 3, 3, 3, 3, 3, 3, 3, 60, 3]"
  using eleven_timeouts[OF timeout_attempts, of "\<lparr>min_interval = 120, debug = False\<rparr>" "''AA:BB''" "0xff",
      THEN conjunct2, THEN conjunct1]
  by simp

text \<open>
  The claim as written fails: after eleven timeouts in a row the counter is 11, not 0
  (the statement \<open>timeout_count = 0\<close> of line 249 is a comment).
\<close>

theorem eleven_timeouts_counterexample:
  "snd (blitz_access_loop \<lparr>min_interval = 120, debug = False\<rparr> ''AA:BB'' 0xff 0
          (replicate 11 \<lparr>find_device_by_address = Inl (Exc TimeoutError []),
                          enter_client = Inr (), reads = [], exit_client = Inr ()\<rparr>)) = 11"
proof -
  from loop_timeouts[OF timeout_attempts, of "\<lparr>min_interval = 120, debug = False\<rparr>" "''AA:BB''" "0xff" 0]
  show ?thesis by auto
qed

section \<open>Properties of the watchdog\<close>

lemma reports_append: "reports (xs @ ys) = reports xs @ reports ys"
  by (induction xs rule: reports.induct) simp_all

lemma WatchDog_loop_body_cases:
  "WatchDog_loop_body self now = ([Sleep (timeout self / 2)], Sleeping) \<and> \<not> enable self \<or>
   WatchDog_loop_body self now = ([Sleep (timeout self - (now - ts self))], Sleeping) \<and>
     enable self \<and> now - ts self < timeout self \<or>
   WatchDog_loop_body self now = ([Log (WatchDogTimedOut (now - ts self))], Exited (- 1)) \<and>
     enable self \<and> now - ts self \<ge> timeout self"
  by (auto simp: WatchDog_loop_body_def Let_def)

lemma WatchDog_loop_end:
  "WatchDog_loop self passes = (es, r) \<Longrightarrow>
     r = Sleeping \<and> reports es = [] \<or>
     r = Exited (- 1) \<and> (\<exists>es' d. es = es' @ [Log (WatchDogTimedOut d)] \<and> reports es' = [])"
proof (induction self passes arbitrary: es r rule: WatchDog_loop.induct)
  case (1 self)
  then show ?case by simp
next
  case (2 self calls now rest)
  let ?s = "foldl wd_apply self calls"
  from WatchDog_loop_body_cases[of ?s now]
  consider (sleep) d where "WatchDog_loop_body ?s now = ([Sleep d], Sleeping)"
    | (exit) d where "WatchDog_loop_body ?s now = ([Log (WatchDogTimedOut d)], Exited (- 1))"
    by blast
  then show ?case
  proof cases
    case sleep
    obtain es' r' where rest: "WatchDog_loop ?s rest = (es', r')"
      by (cases "WatchDog_loop ?s rest")
    from "2.IH"[OF refl sleep[symmetric] refl rest]
    have ih: "r' = Sleeping \<and> reports es' = [] \<or>
              r' = Exited (- 1) \<and> (\<exists>es'' d. es' = es'' @ [Log (WatchDogTimedOut d)] \<and> reports es'' = [])" .
    from "2.prems" sleep rest have e: "es = Sleep d # es'" "r = r'" by (simp_all add: Let_def)
    from ih show ?thesis
    proof
      assume "r' = Sleeping \<and> reports es' = []"
      then show ?thesis using e by simp
    next
      assume "r' = Exited (- 1) \<and> (\<exists>es'' d. es' = es'' @ [Log (WatchDogTimedOut d)] \<and> reports es'' = [])"
      then obtain es'' d' where "r' = Exited (- 1)" "es' = es'' @ [Log (WatchDogTimedOut d')]" "reports es'' = []"
        by blast
      then have "r = Exited (- 1)" "es = (Sleep d # es'') @ [Log (WatchDogTimedOut d')]" "reports (Sleep d # es'') = []"
        using e by simp_all
      then show ?thesis by blast
    qed
  next
    case exit
    from "2.prems" exit have "es = [] @ [Log (WatchDogTimedOut d)]" "r = Exited (- 1)" by (simp_all add: Let_def)
    then show ?thesis by (metis reports.simps(1))
  qed
qed

lemma WatchDog_loop_exited:
  "WatchDog_loop self passes = (es, Exited c) \<Longrightarrow> WatchDog_loop self (passes @ later) = (es, Exited c)"
proof (induction self passes arbitrary: es rule: WatchDog_loop.induct)
  case (1 self)
  then show ?case by simp
next
  case (2 self calls now rest)
  let ?s = "foldl wd_apply self calls"
  show ?case
  proof (cases "WatchDog_loop_body ?s now")
    case (Pair bes br)
    show ?thesis
    proof (cases br)
      case Sleeping
      obtain es' r' where rest: "WatchDog_loop ?s rest = (es', r')"
        by (cases "WatchDog_loop ?s rest")
      from "2.prems" Pair Sleeping rest have e: "es = bes @ es'" "r' = Exited c" by (simp_all add: Let_def)
      from "2.IH"[OF refl Pair[symmetric] Sleeping] rest e
      have "WatchDog_loop ?s (rest @ later) = (es', Exited c)" by simp
      then show ?thesis using Pair Sleeping e by (simp add: Let_def)
    next
      case (Exited c')
      then show ?thesis using "2.prems" Pair by (simp add: Let_def)
    qed
  qed
qed

text \<open>
  Claim C3. One pass of the watchdog loop: when the watchdog is disabled it sleeps half
  the timeout; when it is enabled and the time since the last touch is at least the
  timeout it reports the timeout and exits the process with status -1; when it is
  enabled and less time has passed it sleeps for the remaining time. After a sleep the
  loop makes the next pass. A run of the loop over any passes either is still asleep with
  no report made, or has exited with status -1 with exactly one report, which is its
  last action; once it has exited, further passes change nothing. The loop has no other
  way to end.
\<close>

theorem watchdog_loop_behaviour:
  "(\<not> enable self \<longrightarrow>
      WatchDog_loop_body self now = ([Sleep (timeout self / 2)], Sleeping)) \<and>
   (enable self \<and> now - ts self \<ge> timeout self \<longrightarrow>
      WatchDog_loop_body self now = ([Log (WatchDogTimedOut (now - ts self))], Exited (- 1))) \<and>
   (enable self \<and> now - ts self < timeout self \<longrightarrow>
      WatchDog_loop_body self now = ([Sleep (timeout self - (now - ts self))], Sleeping)) \<and>
   (WatchDog_loop_body (foldl wd_apply self calls) now = (bes, Sleeping) \<longrightarrow>
      WatchDog_loop self ((calls, now) # rest) =
        (case WatchDog_loop (foldl wd_apply self calls) rest of (es', r') \<Rightarrow> (bes @ es', r'))) \<and>
   (WatchDog_loop self passes = (es, r) \<longrightarrow>
      r = Sleeping \<and> reports es = [] \<or>
      r = Exited (- 1) \<and> (\<exists>es' d. es = es' @ [Log (WatchDogTimedOut d)] \<and> reports es' = [])) \<and>
   (WatchDog_loop self passes = (es, Exited c) \<longrightarrow>
      WatchDog_loop self (passes @ later) = (es, Exited c))"
proof -
  have 1: "\<not> enable self \<longrightarrow>
      WatchDog_loop_body self now = ([Sleep (timeout self / 2)], Sleeping)"
    by (simp add: WatchDog_loop_body_def)
  have 2: "enable self \<and> now - ts self \<ge> timeout self \<longrightarrow>
      WatchDog_loop_body self now = ([Log (WatchDogTimedOut (now - ts self))], Exited (- 1))"
    by (simp add: WatchDog_loop_body_def Let_def)
  have 3: "enable self \<and> now - ts self < timeout self \<longrightarrow>
      WatchDog_loop_body self now = ([Sleep (timeout self - (now - ts self))], Sleeping)"
    by (simp add: WatchDog_loop_body_def Let_def)
  have 4: "WatchDog_loop_body (foldl wd_apply self calls) now = (bes, Sleeping) \<longrightarrow>
      WatchDog_loop self ((calls, now) # rest) =
        (case WatchDog_loop (foldl wd_apply self calls) rest of (es', r') \<Rightarrow> (bes @ es', r'))"
    by (simp add: Let_def)
  have 5: "WatchDog_loop self passes = (es, r) \<longrightarrow>
      r = Sleeping \<and> reports es = [] \<or>
      r = Exited (- 1) \<and> (\<exists>es' d. es = es' @ [Log (WatchDogTimedOut d)] \<and> reports es' = [])"
    using WatchDog_loop_end by blast
  have 6: "WatchDog_loop self passes = (es, Exited c) \<longrightarrow>
      WatchDog_loop self (passes @ later) = (es, Exited c)"
    using WatchDog_loop_exited by blast
  from 1 2 3 4 5 6 show ?thesis by blast
qed

lemma watchdog_run:
  "WatchDog_loop \<lparr>timeout = 120, ts = 0, enable = False\<rparr>
     [([], 10), ([CallOn 50], 100), ([], 170)] =
   ([Sleep 60, Sleep 70, Log (WatchDogTimedOut 120)], Exited (- 1))"
  by (simp add: WatchDog_loop_body_def WatchDog_on_def WatchDog_touch_def Let_def)

theorem watchdog_loop_behaviour_witness:
  "WatchDog_loop \<lparr>timeout = 120, ts = 0, enable = False\<rparr>
     ([([], 10), ([CallOn 50], 100), ([], 170)] @ [([CallOff], 200)]) =
   ([Sleep 60, Sleep 70, Log (WatchDogTimedOut 120)], Exited (- 1)) \<and>
   WatchDog_loop_body \<lparr>timeout = 120, ts = 50, enable = True\<rparr> 170 =
     ([Log (WatchDogTimedOut 120)], Exited (- 1)) \<and>
   WatchDog_loop_body \<lparr>timeout = 120, ts = 50, enable = True\<rparr> 100 = ([Sleep 70], Sleeping) \<and>
   WatchDog_loop_body \<lparr>timeout = 120, ts = 0, enable = False\<rparr> 10 = ([Sleep 60], Sleeping)"
  using watchdog_loop_behaviour
          [of "\<lparr>timeout = 120, ts = 0, enable = False\<rparr>" 10 "[]" "[]" "[]"
              "[([], 10), ([CallOn 50], 100), ([], 170)]"
              "[Sleep 60, Sleep 70, Log (WatchDogTimedOut 120)]" "Exited (- 1)" "- 1"
              "[([CallOff], 200)]"]
        watchdog_loop_behaviour
          [of "\<lparr>timeout = 120, ts = 50, enable = True\<rparr>" 170]
        watchdog_loop_behaviour
          [of "\<lparr>timeout = 120, ts = 50, enable = True\<rparr>" 100]
        watchdog_run
  by simp

section \<open>Properties of the meter programs\<close>

lemma take2_drop: "Suc i < length xs \<Longrightarrow> take 2 (drop i xs) = [xs ! i, xs ! Suc i]"
proof -
  assume a: "Suc i < length xs"
  then have "drop i xs = xs ! i # drop (Suc i) xs" by (simp add: Cons_nth_drop_Suc)
  moreover have "drop (Suc i) xs = xs ! Suc i # drop (Suc (Suc i)) xs"
    using a by (simp add: Cons_nth_drop_Suc)
  ultimately show ?thesis by (simp add: numeral_2_eq_2)
qed

lemma take1_drop: "i < length xs \<Longrightarrow> take (Suc 0) (drop i xs) = [xs ! i]"
  by (simp add: take_Suc_conv_app_nth)

lemma from_bytes_big_eval:
  "from_bytes_big [a] = uint a" "from_bytes_big [a, b] = uint a * 256 + uint b"
  by (simp_all add: from_bytes_big_def)

lemma meter_parse_data_fields:
  assumes "30 \<le> length raw_data"
  shows "meter_parse_data raw_data ''voltage'' =
           Some (VFloat (real_of_int (uint (raw_data ! 5) * 256 + uint (raw_data ! 6)) / 10))"
    and "meter_parse_data raw_data ''current'' =
           Some (VFloat (real_of_int (uint (raw_data ! 8) * 256 + uint (raw_data ! 9)) / 1000))"
    and "meter_parse_data raw_data ''power'' =
           Some (VFloat (real_of_int (uint (raw_data ! 11) * 256 + uint (raw_data ! 12)) / 10))"
    and "meter_parse_data raw_data ''kwh'' =
           Some (VFloat (real_of_int (uint (raw_data ! 15) * 256 + uint (raw_data ! 16)) / 100))"
    and "meter_parse_data raw_data ''price'' =
           Some (VFloat (real_of_int (uint (raw_data ! 19)) / 100))"
    and "meter_parse_data raw_data ''freq'' =
           Some (VFloat (real_of_int (uint (raw_data ! 20) * 256 + uint (raw_data ! 21)) / 10))"
    and "meter_parse_data raw_data ''coef'' =
           Some (VFloat (real_of_int (uint (raw_data ! 22) * 256 + uint (raw_data ! 23)) / 1000))"
    and "meter_parse_data raw_data ''temperature'' = Some (VInt (uint (raw_data ! 25)))"
    and "meter_parse_data raw_data ''h'' =
           Some (VInt (uint (raw_data ! 26) * 256 + uint (raw_data ! 27)))"
    and "meter_parse_data raw_data ''m'' = Some (VInt (uint (raw_data ! 28)))"
    and "meter_parse_data raw_data ''s'' = Some (VInt (uint (raw_data ! 29)))"
  using assms
  by (simp_all add: meter_parse_data_def py_slice_def Let_def take2_drop take1_drop
      from_bytes_big_eval)

lemma print_frame_emits:
  assumes "interval args \<noteq> 0" and "pc mod interval args = 0"
  shows "emitted (fst (print_frame args pc w data)) = [data]"
    and "snd (print_frame args pc w data) = Inr 1"
  using assms by (simp_all add: print_frame_def Let_def emitted_append)

lemma spp_frame_invalid:
  assumes "length raw_data < 32 \<or> py_slice raw_data 0 4 \<noteq> meter_header"
  shows "spp_frame args st raw_data =
           (if reconnect_count st > 20 then ([], Inl (Exc SerialException ''too many errors''))
            else ([Log (InvalidDataRetry (length raw_data) (reconnect_count st) 20)],
                  Inr (st\<lparr>worked := False, reconnect_count := reconnect_count st + 1\<rparr>)))"
  using assms by (simp add: spp_frame_def reconnect_threshold_def)

lemma spp_frame_valid:
  assumes "\<not> (length raw_data < 32 \<or> py_slice raw_data 0 4 \<noteq> meter_header)"
  shows "spp_frame args st raw_data = (es, Inr st') \<Longrightarrow> reconnect_count st' = 0"
    and "interval args \<noteq> 0 \<Longrightarrow> print_count st mod interval args = 0 \<Longrightarrow>
         emitted (fst (spp_frame args st raw_data)) = [meter_parse_data raw_data]"
  using assms print_frame_emits[of args "print_count st" "worked st" "meter_parse_data raw_data"]
  by (auto simp: spp_frame_def split: prod.splits sum.splits)

lemma notify_cb_invalid:
  assumes "length data \<noteq> 36 \<or> py_slice data 0 4 \<noteq> meter_header"
  shows "notify_cb args st data =
           ([WatchDogTouch, Log (InvalidDataNotify data)], Inr (st\<lparr>worked := False\<rparr>))"
  using assms by (auto simp: notify_cb_def)

lemma notify_cb_valid:
  assumes "length data = 36" and "py_slice data 0 4 = meter_header"
    and "interval args \<noteq> 0" and "print_count st mod interval args = 0"
  shows "emitted (fst (notify_cb args st data)) = [meter_parse_data data]"
  using assms print_frame_emits[of args "print_count st" "worked st" "meter_parse_data data"]
  by (auto simp: notify_cb_def split: prod.splits sum.splits)

text \<open>
  Claim C5. A frame of 36 bytes that begins with ff 55 01 01 decodes to the big-endian
  fields at the offsets of the source with their divisors, and both paths hand this
  reading to \<open>influx_print\<close> when the sampling counter allows it. A frame that is
  shorter than 32 bytes or does not begin with the header is rejected on both paths:
  the serial loop counts an error or raises, the callback logs it, and neither hands
  over a reading.
\<close>

theorem meter_frame_decoding:
  "(length raw_data = 36 \<and> py_slice raw_data 0 4 = [0xff, 0x55, 0x01, 0x01] \<longrightarrow>
      meter_parse_data raw_data ''voltage'' =
        Some (VFloat (real_of_int (uint (raw_data ! 5) * 256 + uint (raw_data ! 6)) / 10)) \<and>
      meter_parse_data raw_data ''current'' =
        Some (VFloat (real_of_int (uint (raw_data ! 8) * 256 + uint (raw_data ! 9)) / 1000)) \<and>
      meter_parse_data raw_data ''power'' =
        Some (VFloat (real_of_int (uint (raw_data ! 11) * 256 + uint (raw_data ! 12)) / 10)) \<and>
      meter_parse_data raw_data ''kwh'' =
        Some (VFloat (real_of_int (uint (raw_data ! 15) * 256 + uint (raw_data ! 16)) / 100)) \<and>
      meter_parse_data raw_data ''price'' =
        Some (VFloat (real_of_int (uint (raw_data ! 19)) / 100)) \<and>
      meter_parse_data raw_data ''freq'' =
        Some (VFloat (real_of_int (uint (raw_data ! 20) * 256 + uint (raw_data ! 21)) / 10)) \<and>
      meter_parse_data raw_data ''coef'' =
        Some (VFloat (real_of_int (uint (raw_data ! 22) * 256 + uint (raw_data ! 23)) / 1000)) \<and>
      meter_parse_data raw_data ''temperature'' = Some (VInt (uint (raw_data ! 25))) \<and>
      meter_parse_data raw_data ''h'' =
        Some (VInt (uint (raw_data ! 26) * 256 + uint (raw_data ! 27))) \<and>
      meter_parse_data raw_data ''m'' = Some (VInt (uint (raw_data ! 28))) \<and>
      meter_parse_data raw_data ''s'' = Some (VInt (uint (raw_data ! 29))) \<and>
      (interval args \<noteq> 0 \<and> print_count st mod interval args = 0 \<longrightarrow>
         emitted (fst (spp_frame args st raw_data)) = [meter_parse_data raw_data]) \<and>
      (interval args \<noteq> 0 \<and> print_count mst mod interval args = 0 \<longrightarrow>
         emitted (fst (notify_cb args mst raw_data)) = [meter_parse_data raw_data])) \<and>
   (length raw_data < 32 \<or> py_slice raw_data 0 4 \<noteq> [0xff, 0x55, 0x01, 0x01] \<longrightarrow>
      spp_frame args st raw_data =
        (if reconnect_count st > 20 then ([], Inl (Exc SerialException ''too many errors''))
         else ([Log (InvalidDataRetry (length raw_data) (reconnect_count st) 20)],
               Inr (st\<lparr>worked := False, reconnect_count := reconnect_count st + 1\<rparr>))) \<and>
      emitted (fst (spp_frame args st raw_data)) = [] \<and>
      notify_cb args mst raw_data =
        ([WatchDogTouch, Log (InvalidDataNotify raw_data)], Inr (mst\<lparr>worked := False\<rparr>)) \<and>
      emitted (fst (notify_cb args mst raw_data)) = [])"
proof (rule conjI; rule impI)
  assume a: "length raw_data = 36 \<and> py_slice raw_data 0 4 = [0xff, 0x55, 0x01, 0x01]"
  then have len: "30 \<le> length raw_data" by simp
  have v: "\<not> (length raw_data < 32 \<or> py_slice raw_data 0 4 \<noteq> meter_header)"
    using a by (simp add: meter_header_def)
  have h: "py_slice raw_data 0 4 = meter_header" using a by (simp add: meter_header_def)
  show "meter_parse_data raw_data ''voltage'' =
        Some (VFloat (real_of_int (uint (raw_data ! 5) * 256 + uint (raw_data ! 6)) / 10)) \<and>
      meter_parse_data raw_data ''current'' =
        Some (VFloat (real_of_int (uint (raw_data ! 8) * 256 + uint (raw_data ! 9)) / 1000)) \<and>
      meter_parse_data raw_data ''power'' =
        Some (VFloat (real_of_int (uint (raw_data ! 11) * 256 + uint (raw_data ! 12)) / 10)) \<and>
      meter_parse_data raw_data ''kwh'' =
        Some (VFloat (real_of_int (uint (raw_data ! 15) * 256 + uint (raw_data ! 16)) / 100)) \<and>
      meter_parse_data raw_data ''price'' =
        Some (VFloat (real_of_int (uint (raw_data ! 19)) / 100)) \<and>
      meter_parse_data raw_data ''freq'' =
        Some (VFloat (real_of_int (uint (raw_data ! 20) * 256 + uint (raw_data ! 21)) / 10)) \<and>
      meter_parse_data raw_data ''coef'' =
        Some (VFloat (real_of_int (uint (raw_data ! 22) * 256 + uint (raw_data ! 23)) / 1000)) \<and>
      meter_parse_data raw_data ''temperature'' = Some (VInt (uint (raw_data ! 25))) \<and>
      meter_parse_data raw_data ''h'' =
        Some (VInt (uint (raw_data ! 26) * 256 + uint (raw_data ! 27))) \<and>
      meter_parse_data raw_data ''m'' = Some (VInt (uint (raw_data ! 28))) \<and>
      meter_parse_data raw_data ''s'' = Some (VInt (uint (raw_data ! 29))) \<and>
      (interval args \<noteq> 0 \<and> print_count st mod interval args = 0 \<longrightarrow>
         emitted (fst (spp_frame args st raw_data)) = [meter_parse_data raw_data]) \<and>
      (interval args \<noteq> 0 \<and> print_count mst mod interval args = 0 \<longrightarrow>
         emitted (fst (notify_cb args mst raw_data)) = [meter_parse_data raw_data])"
    by (simp add: meter_parse_data_fields[OF len] spp_frame_valid(2)[OF v]
        notify_cb_valid[OF conjunct1[OF a] h])
next
  assume a: "length raw_data < 32 \<or> py_slice raw_data 0 4 \<noteq> [0xff, 0x55, 0x01, 0x01]"
  then have i: "length raw_data < 32 \<or> py_slice raw_data 0 4 \<noteq> meter_header"
    by (simp add: meter_header_def)
  then have j: "length raw_data \<noteq> 36 \<or> py_slice raw_data 0 4 \<noteq> meter_header" by auto
  show "spp_frame args st raw_data =
        (if reconnect_count st > 20 then ([], Inl (Exc SerialException ''too many errors''))
         else ([Log (InvalidDataRetry (length raw_data) (reconnect_count st) 20)],
               Inr (st\<lparr>worked := False, reconnect_count := reconnect_count st + 1\<rparr>))) \<and>
      emitted (fst (spp_frame args st raw_data)) = [] \<and>
      notify_cb args mst raw_data =
        ([WatchDogTouch, Log (InvalidDataNotify raw_data)], Inr (mst\<lparr>worked := False\<rparr>)) \<and>
      emitted (fst (notify_cb args mst raw_data)) = []"
    by (simp add: spp_frame_invalid[OF i] notify_cb_invalid[OF j])
qed

theorem meter_frame_decoding_witness:
  "meter_parse_data
     [0xff, 0x55, 0x01, 0x01, 0, 0x08, 0x98, 0, 0x03, 0xE8, 0, 0x08, 0x98, 0, 0, 0x00, 0x64, 0, 0,
      0x32, 0x01, 0xF4, 0x03, 0xE8, 0, 0x19, 0x00, 0x0C, 0x22, 0x38, 0, 0, 0, 0, 0, 0] ''voltage''
     = Some (VFloat 220) \<and>
   meter_parse_data
     [0xff, 0x55, 0x01, 0x01, 0, 0x08, 0x98, 0, 0x03, 0xE8, 0, 0x08, 0x98, 0, 0, 0x00, 0x64, 0, 0,
      0x32, 0x01, 0xF4, 0x03, 0xE8, 0, 0x19, 0x00, 0x0C, 0x22, 0x38, 0, 0, 0, 0, 0, 0] ''price''
     = Some (VFloat 0.5) \<and>
   meter_parse_data
     [0xff, 0x55, 0x01, 0x01, 0, 0x08, 0x98, 0, 0x03, 0xE8, 0, 0x08, 0x98, 0, 0, 0x00, 0x64, 0, 0,
      0x32, 0x01, 0xF4, 0x03, 0xE8, 0, 0x19, 0x00, 0x0C, 0x22, 0x38, 0, 0, 0, 0, 0, 0] ''h''
     = Some (VInt 12) \<and>
   emitted (fst (notify_cb \<lparr>interval = 3, meter_debug = False\<rparr> \<lparr>print_count = 0, worked = False\<rparr>
     [0xff, 0x55, 0x01, 0x01, 0, 0x08, 0x98, 0, 0x03, 0xE8, 0, 0x08, 0x98, 0, 0, 0x00, 0x64, 0, 0,
      0x32, 0x01, 0xF4, 0x03, 0xE8, 0, 0x19, 0x00, 0x0C, 0x22, 0x38, 0, 0, 0, 0, 0, 0])) =
     [meter_parse_data
     [0xff, 0x55, 0x01, 0x01, 0, 0x08, 0x98, 0, 0x03, 0xE8, 0, 0x08, 0x98, 0, 0, 0x00, 0x64, 0, 0,
      0x32, 0x01, 0xF4, 0x03, 0xE8, 0, 0x19, 0x00, 0x0C, 0x22, 0x38, 0, 0, 0, 0, 0, 0]] \<and>
   notify_cb \<lparr>interval = 3, meter_debug = False\<rparr> \<lparr>print_count = 0, worked = True\<rparr>
     [0xff, 0x55, 0x01] =
     ([WatchDogTouch, Log (InvalidDataNotify [0xff, 0x55, 0x01])],
      Inr \<lparr>print_count = 0, worked = False\<rparr>)"
proof -
  let ?f = "[0xff, 0x55, 0x01, 0x01, 0, 0x08, 0x98, 0, 0x03, 0xE8, 0, 0x08, 0x98, 0, 0, 0x00, 0x64,
      0, 0, 0x32, 0x01, 0xF4, 0x03, 0xE8, 0, 0x19, 0x00, 0x0C, 0x22, 0x38, 0, 0, 0, 0, 0, 0]
      :: byte list"
  let ?args = "\<lparr>interval = 3, meter_debug = False\<rparr>"
  let ?st = "\<lparr>print_count = 0, worked = False, reconnect_count = 0\<rparr>"
  have a: "length ?f = 36 \<and> py_slice ?f 0 4 = [0xff, 0x55, 0x01, 0x01]"
    by (simp add: py_slice_def)
  have b: "length [0xff, 0x55, 0x01 :: byte] < 32 \<or>
           py_slice [0xff, 0x55, 0x01 :: byte] 0 4 \<noteq> [0xff, 0x55, 0x01, 0x01]"
    by simp
  from meter_frame_decoding[of ?f ?args ?st "\<lparr>print_count = 0, worked = False\<rparr>",
      THEN conjunct1, rule_format, OF a]
    meter_frame_decoding[of "[0xff, 0x55, 0x01]" ?args ?st "\<lparr>print_count = 0, worked = True\<rparr>",
      THEN conjunct2, rule_format, OF b]
  show ?thesis by simp
qed

section \<open>Properties of the serial loop\<close>

lemma run_spp_loop_raises:
  assumes "\<forall>x\<in>set rs. \<exists>r. x = Inr r \<and> (length r < 32 \<or> py_slice r 0 4 \<noteq> meter_header)"
    and "reconnect_count st \<le> 21"
    and "2 * nat (22 - reconnect_count st) \<le> length rs"
  shows "\<exists>es. run_spp_loop args st rs = (es, Raised (Exc SerialException ''too many errors''))"
  using assms
proof (induction "length rs" arbitrary: rs st rule: less_induct)
  case less
  from less.prems(2,3) have "2 \<le> length rs" by linarith
  then obtain x y rs2 where rs: "rs = x # y # rs2"
    by (cases rs; simp; rename_tac z zs; case_tac zs; simp)
  from less.prems(1) rs obtain r1 r2 where
    x: "x = Inr r1" "length r1 < 32 \<or> py_slice r1 0 4 \<noteq> meter_header" and
    y: "y = Inr r2" "length r2 < 32 \<or> py_slice r2 0 4 \<noteq> meter_header"
    by auto
  let ?st' = "st\<lparr>worked := False, reconnect_count := reconnect_count st + 1\<rparr>"
  show ?case
  proof (cases "reconnect_count st > 20")
    case True
    then show ?thesis
      by (simp add: rs x(1) y(1) spp_frame_invalid[OF x(2)] spp_frame_invalid[OF y(2)])
  next
    case False
    then have c: "reconnect_count ?st' \<le> 21" by simp
    have n: "nat (22 - reconnect_count st) = Suc (nat (22 - reconnect_count ?st'))"
      using False by simp
    show ?thesis
    proof (cases "length r1 = 0")
      case True
      have "\<exists>es. run_spp_loop args ?st' rs2 = (es, Raised (Exc SerialException ''too many errors''))"
      proof (rule less.hyps[OF _ _ c])
        show "length rs2 < length rs" by (simp add: rs)
        show "\<forall>x\<in>set rs2. \<exists>r. x = Inr r \<and> (length r < 32 \<or> py_slice r 0 4 \<noteq> meter_header)"
          using less.prems(1) by (simp add: rs)
        show "2 * nat (22 - reconnect_count ?st') \<le> length rs2"
          using less.prems(3) n by (simp add: rs)
      qed
      then show ?thesis
        using True False
        by (auto simp: rs x(1) y(1) spp_frame_invalid[OF y(2)])
    next
      case nonempty: False
      have "\<exists>es. run_spp_loop args ?st' (y # rs2) = (es, Raised (Exc SerialException ''too many errors''))"
      proof (rule less.hyps[OF _ _ c])
        show "length (y # rs2) < length rs" by (simp add: rs)
        show "\<forall>x\<in>set (y # rs2). \<exists>r. x = Inr r \<and> (length r < 32 \<or> py_slice r 0 4 \<noteq> meter_header)"
          using less.prems(1) by (simp add: rs)
        show "2 * nat (22 - reconnect_count ?st') \<le> length (y # rs2)"
          using less.prems(3) n by (simp add: rs)
      qed
      then show ?thesis
        using nonempty False
        by (auto simp: rs x(1) spp_frame_invalid[OF x(2)])
    qed
  qed
qed

lemma run_spp_loop_continues:
  assumes "\<forall>x\<in>set rs. \<exists>r. x = Inr r \<and> (length r < 32 \<or> py_slice r 0 4 \<noteq> meter_header)"
    and "reconnect_count st + int (length rs) \<le> 21"
  shows "\<exists>es st'. run_spp_loop args st rs = (es, Reading st')"
  using assms
proof (induction "length rs" arbitrary: rs st rule: less_induct)
  case less
  let ?st' = "st\<lparr>worked := False, reconnect_count := reconnect_count st + 1\<rparr>"
  show ?case
  proof (cases rs)
    case Nil
    then show ?thesis by simp
  next
    case (Cons x rs1)
    from less.prems(1) Cons obtain r1 where
      x: "x = Inr r1" "length r1 < 32 \<or> py_slice r1 0 4 \<noteq> meter_header"
      by auto
    from less.prems(2) Cons have c: "\<not> reconnect_count st > 20" by simp
    show ?thesis
    proof (cases "length r1 = 0")
      case nonempty: False
      have "\<exists>es st''. run_spp_loop args ?st' rs1 = (es, Reading st'')"
      proof (rule less.hyps)
        show "length rs1 < length rs" by (simp add: Cons)
        show "\<forall>x\<in>set rs1. \<exists>r. x = Inr r \<and> (length r < 32 \<or> py_slice r 0 4 \<noteq> meter_header)"
          using less.prems(1) by (simp add: Cons)
        show "reconnect_count ?st' + int (length rs1) \<le> 21"
          using less.prems(2) by (simp add: Cons)
      qed
      then show ?thesis
        using nonempty c by (auto simp: Cons x(1) spp_frame_invalid[OF x(2)])
    next
      case True
      show ?thesis
      proof (cases rs1)
        case Nil
        then show ?thesis using True by (simp add: Cons x(1))
      next
        case inner: (Cons y rs2)
        from less.prems(1) Cons inner obtain r2 where
          y: "y = Inr r2" "length r2 < 32 \<or> py_slice r2 0 4 \<noteq> meter_header"
          by auto
        have "\<exists>es st''. run_spp_loop args ?st' rs2 = (es, Reading st'')"
        proof (rule less.hyps)
          show "length rs2 < length rs" by (simp add: Cons inner)
          show "\<forall>x\<in>set rs2. \<exists>r. x = Inr r \<and> (length r < 32 \<or> py_slice r 0 4 \<noteq> meter_header)"
            using less.prems(1) by (simp add: Cons inner)
          show "reconnect_count ?st' + int (length rs2) \<le> 21"
            using less.prems(2) by (simp add: Cons inner)
        qed
        then show ?thesis
          using True c by (auto simp: Cons inner x(1) y(1) spp_frame_invalid[OF y(2)])
      qed
    qed
  qed
qed

lemma run_spp_loop_raises_nonempty:
  assumes "\<forall>x\<in>set rs. \<exists>r. x = Inr r \<and> r \<noteq> [] \<and>
             (length r < 32 \<or> py_slice r 0 4 \<noteq> meter_header)"
    and "reconnect_count st \<le> 21"
    and "nat (22 - reconnect_count st) \<le> length rs"
  shows "\<exists>es. run_spp_loop args st rs = (es, Raised (Exc SerialException ''too many errors''))"
  using assms
proof (induction rs arbitrary: st)
  case Nil
  then show ?case by simp
next
  case (Cons x rs)
  let ?st' = "st\<lparr>worked := False, reconnect_count := reconnect_count st + 1\<rparr>"
  from Cons.prems(1) obtain r1 where
    x: "x = Inr r1" "r1 \<noteq> []" "length r1 < 32 \<or> py_slice r1 0 4 \<noteq> meter_header"
    by auto
  show ?case
  proof (cases "reconnect_count st > 20")
    case True
    then show ?thesis using x(2) by (simp add: x(1) spp_frame_invalid[OF x(3)])
  next
    case False
    have "\<exists>es. run_spp_loop args ?st' rs = (es, Raised (Exc SerialException ''too many errors''))"
    proof (rule Cons.IH)
      show "\<forall>x\<in>set rs. \<exists>r. x = Inr r \<and> r \<noteq> [] \<and>
              (length r < 32 \<or> py_slice r 0 4 \<noteq> meter_header)"
        using Cons.prems(1) by simp
      show "reconnect_count ?st' \<le> 21" using False by simp
      show "nat (22 - reconnect_count ?st') \<le> length rs"
        using Cons.prems(3) False by simp
    qed
    then show ?thesis
      using False x(2) by (auto simp: x(1) spp_frame_invalid[OF x(3)])
  qed
qed

lemma run_spp_session:
  "run_spp args \<lparr>open_port = Inr (), ser_reads = rs\<rparr> =
     run_spp_loop args \<lparr>print_count = 0, worked = False, reconnect_count = 0\<rparr> rs"
  by (simp add: run_spp_def)

text \<open>
  Claim C10, as the code has it. The serial loop does not retry invalid frames for ever.
  A pass of the loop takes one read and, if that read is empty, a second one; its frame
  is invalid if it is shorter than 32 bytes or lacks the header. An invalid pass raises
  \<open>SerialException\<close> if more than 20 invalid passes came directly before it, and
  otherwise adds one to the counter and goes on. So reads that are all invalid do not
  raise while there are at most 21 of them, raise once there are 22 of them that are not
  empty, and raise in any case once there are 44. The caller catches the exception,
  sleeps 10 seconds and calls \<open>run_spp\<close> again, which opens the port again. A valid
  frame sets the counter to 0.
\<close>

theorem serial_retry_bounded:
  assumes "\<forall>r\<in>set frames. length r < 32 \<or> py_slice r 0 4 \<noteq> [0xff, 0x55, 0x01, 0x01]"
  shows "(length frames \<le> 21 \<longrightarrow>
            (\<exists>es st. run_spp args \<lparr>open_port = Inr (), ser_reads = map Inr frames\<rparr> =
                       (es, Reading st))) \<and>
         (44 \<le> length frames \<or> 22 \<le> length frames \<and> (\<forall>r\<in>set frames. r \<noteq> []) \<longrightarrow>
            (\<exists>es. run_spp args \<lparr>open_port = Inr (), ser_reads = map Inr frames\<rparr> =
                    (es, Raised (Exc SerialException ''too many errors'')))) \<and>
         (\<forall>r\<in>set frames.
            spp_frame args st r =
              (if reconnect_count st > 20 then ([], Inl (Exc SerialException ''too many errors''))
               else ([Log (InvalidDataRetry (length r) (reconnect_count st) 20)],
                     Inr (st\<lparr>worked := False, reconnect_count := reconnect_count st + 1\<rparr>)))) \<and>
         (run_spp args s = (es, Raised e) \<and> exc_class e = SerialException \<longrightarrow>
            main_spp args (s # ss) =
              (case main_spp args ss of
                 (es', r) \<Rightarrow> (es @ [Log (FailedToConnect e), Sleep 10] @ es', r))) \<and>
         (\<not> (length raw_data < 32 \<or> py_slice raw_data 0 4 \<noteq> [0xff, 0x55, 0x01, 0x01]) \<and>
          spp_frame args st raw_data = (es2, Inr st') \<longrightarrow> reconnect_count st' = 0)"
proof -
  let ?st0 = "\<lparr>print_count = 0, worked = False, reconnect_count = 0\<rparr>"
  have inv: "\<forall>x\<in>set (map Inr frames). \<exists>r. x = Inr r \<and>
               (length r < 32 \<or> py_slice r 0 4 \<noteq> meter_header)"
    using assms by (auto simp: meter_header_def)
  have 1: "length frames \<le> 21 \<longrightarrow>
            (\<exists>es st. run_spp args \<lparr>open_port = Inr (), ser_reads = map Inr frames\<rparr> =
                       (es, Reading st))"
    using run_spp_loop_continues[OF inv, of ?st0 args] by (simp add: run_spp_session)
  have 2: "44 \<le> length frames \<or> 22 \<le> length frames \<and> (\<forall>r\<in>set frames. r \<noteq> []) \<longrightarrow>
            (\<exists>es. run_spp args \<lparr>open_port = Inr (), ser_reads = map Inr frames\<rparr> =
                    (es, Raised (Exc SerialException ''too many errors'')))"
  proof
    assume "44 \<le> length frames \<or> 22 \<le> length frames \<and> (\<forall>r\<in>set frames. r \<noteq> [])"
    then show "\<exists>es. run_spp args \<lparr>open_port = Inr (), ser_reads = map Inr frames\<rparr> =
                    (es, Raised (Exc SerialException ''too many errors''))"
    proof
      assume "44 \<le> length frames"
      then show ?thesis
        using run_spp_loop_raises[OF inv, of ?st0 args] by (simp add: run_spp_session)
    next
      assume a: "22 \<le> length frames \<and> (\<forall>r\<in>set frames. r \<noteq> [])"
      then have "\<forall>x\<in>set (map Inr frames). \<exists>r. x = Inr r \<and> r \<noteq> [] \<and>
               (length r < 32 \<or> py_slice r 0 4 \<noteq> meter_header)"
        using assms by (auto simp: meter_header_def)
      from run_spp_loop_raises_nonempty[OF this, of ?st0 args] a
      show ?thesis by (simp add: run_spp_session)
    qed
  qed
  have 3: "\<forall>r\<in>set frames.
            spp_frame args st r =
              (if reconnect_count st > 20 then ([], Inl (Exc SerialException ''too many errors''))
               else ([Log (InvalidDataRetry (length r) (reconnect_count st) 20)],
                     Inr (st\<lparr>worked := False, reconnect_count := reconnect_count st + 1\<rparr>)))"
    using assms spp_frame_invalid[of _ args st] by (simp add: meter_header_def)
  have 4: "run_spp args s = (es, Raised e) \<and> exc_class e = SerialException \<longrightarrow>
            main_spp args (s # ss) =
              (case main_spp args ss of
                 (es', r) \<Rightarrow> (es @ [Log (FailedToConnect e), Sleep 10] @ es', r))"
    by simp
  have 5: "\<not> (length raw_data < 32 \<or> py_slice raw_data 0 4 \<noteq> [0xff, 0x55, 0x01, 0x01]) \<and>
          spp_frame args st raw_data = (es2, Inr st') \<longrightarrow> reconnect_count st' = 0"
    using spp_frame_valid(1)[of raw_data args st es2 st'] by (simp add: meter_header_def)
  from 1 2 3 4 5 show ?thesis by blast
qed

theorem serial_retry_bounded_witness:
  "(\<exists>es. run_spp \<lparr>interval = 3, meter_debug = False\<rparr>
            \<lparr>open_port = Inr (), ser_reads = map Inr (replicate 22 [0])\<rparr> =
          (es, Raised (Exc SerialException ''too many errors''))) \<and>
   (\<exists>es st. run_spp \<lparr>interval = 3, meter_debug = False\<rparr>
            \<lparr>open_port = Inr (), ser_reads = map Inr (replicate 21 [0])\<rparr> = (es, Reading st))"
proof -
  have a: "\<forall>r\<in>set (replicate n [0 :: byte]).
             length r < 32 \<or> py_slice r 0 4 \<noteq> [0xff, 0x55, 0x01, 0x01]" for n
    by simp
  from serial_retry_bounded[OF a[of 22], of "\<lparr>interval = 3, meter_debug = False\<rparr>", THEN conjunct2,
      THEN conjunct1]
    serial_retry_bounded[OF a[of 21], of "\<lparr>interval = 3, meter_debug = False\<rparr>", THEN conjunct1]
  show ?thesis by simp
qed

text \<open>
  The claim as written fails: after 21 reads in a row of one byte each, and after 42
  empty reads in a row, \<open>run_spp\<close> has not raised. It has counted 21 errors and is
  blocked in its next read.
\<close>

theorem serial_retry_bounded_counterexample:
  "snd (run_spp \<lparr>interval = 3, meter_debug = False\<rparr>
          \<lparr>open_port = Inr (), ser_reads = replicate 21 (Inr [0])\<rparr>) =
     Reading \<lparr>print_count = 0, worked = False, reconnect_count = 21\<rparr> \<and>
   snd (run_spp \<lparr>interval = 3, meter_debug = False\<rparr>
          \<lparr>open_port = Inr (), ser_reads = replicate 42 (Inr [])\<rparr>) =
     Reading \<lparr>print_count = 0, worked = False, reconnect_count = 21\<rparr>"
  by code_simp

end
